theory Spec2Isabelle
  imports Main "HOL-Library.Word" "HOL-Library.Multiset"
begin

section \<open>Go library functions used by the generator\<close>

text \<open>
  Go strings are byte sequences; they are modelled as \<^typ>\<open>string\<close> (a list of 8-bit
  characters).  The functions of this section model the parts of the Go packages
  \<^verbatim>\<open>strings\<close> and \<^verbatim>\<open>path\<close> that \<^verbatim>\<open>generator.go\<close> calls, following their
  documented behaviour.  Every separator the generator passes is a single byte, so the
  separator is a \<^typ>\<open>char\<close>.
\<close>

text \<open>\<^verbatim>\<open>strings.Split(s, sep)\<close>: all substrings between separators; the empty string
  gives one empty substring.\<close>

fun Split :: "string \<Rightarrow> char \<Rightarrow> string list" where
  "Split [] sep = [[]]"
| "Split (c # cs) sep =
     (if c = sep then [] # Split cs sep
      else (case Split cs sep of [] \<Rightarrow> [[c]] | p # ps \<Rightarrow> (c # p) # ps))"

text \<open>\<^verbatim>\<open>strings.SplitN(s, sep, n)\<close> for \<open>n \<ge> 0\<close>: at most \<open>n\<close> substrings, the last one
  being the unsplit remainder; \<open>n = 0\<close> gives no substring at all.\<close>

fun SplitN :: "string \<Rightarrow> char \<Rightarrow> nat \<Rightarrow> string list" where
  "SplitN s sep 0 = []"
| "SplitN s sep (Suc 0) = [s]"
| "SplitN [] sep (Suc (Suc n)) = [[]]"
| "SplitN (c # cs) sep (Suc (Suc n)) =
     (if c = sep then [] # SplitN cs sep (Suc n)
      else (case SplitN cs sep (Suc (Suc n)) of [] \<Rightarrow> [[c]] | p # ps \<Rightarrow> (c # p) # ps))"

text \<open>\<^verbatim>\<open>strings.Join(elems, sep)\<close>.\<close>

fun Join :: "string list \<Rightarrow> string \<Rightarrow> string" where
  "Join [] sep = []"
| "Join [x] sep = x"
| "Join (x # y # ys) sep = x @ sep @ Join (y # ys) sep"

text \<open>\<^verbatim>\<open>strings.TrimSuffix(s, suffix)\<close>.\<close>

definition TrimSuffix :: "string \<Rightarrow> string \<Rightarrow> string" where
  "TrimSuffix s suffix =
     (if length suffix \<le> length s \<and> drop (length s - length suffix) s = suffix
      then take (length s - length suffix) s else s)"

text \<open>\<^verbatim>\<open>strings.Repeat(s, count)\<close> for a non-negative count.\<close>

definition Repeat :: "string \<Rightarrow> nat \<Rightarrow> string" where
  "Repeat s n = concat (replicate n s)"

text \<open>
  \<^verbatim>\<open>strings.ToUpper\<close> and \<^verbatim>\<open>strings.ToLower\<close> are only ever applied to a one-byte
  slice \<^verbatim>\<open>s[0:1]\<close>.  On an ASCII byte they change the case of a letter and leave
  everything else alone; a lone byte \<open>\<ge> 0x80\<close> is not valid UTF-8 and comes back as
  the encoding of U+FFFD.
\<close>

definition ToUpper1 :: "char \<Rightarrow> string" where
  "ToUpper1 c =
     (let n = (of_char c :: nat) in
      if 97 \<le> n \<and> n \<le> 122 then [char_of (n - 32)]
      else if n < 128 then [c]
      else [char_of (239::nat), char_of (191::nat), char_of (189::nat)])"

definition ToLower1 :: "char \<Rightarrow> string" where
  "ToLower1 c =
     (let n = (of_char c :: nat) in
      if 65 \<le> n \<and> n \<le> 90 then [char_of (n + 32)]
      else if n < 128 then [c]
      else [char_of (239::nat), char_of (191::nat), char_of (189::nat)])"

text \<open>
  \<^verbatim>\<open>path.Clean\<close>, on the slash-separated elements of the path: empty elements and
  \<^verbatim>\<open>.\<close> are dropped, \<^verbatim>\<open>..\<close> removes the element before it (at the start of a
  relative path it stays, at the root it is dropped).  \<open>out\<close> holds the kept
  elements, last one first.
\<close>

fun cleanElems :: "bool \<Rightarrow> string list \<Rightarrow> string list \<Rightarrow> string list" where
  "cleanElems rooted out [] = rev out"
| "cleanElems rooted out (c # cs) =
     (if c = [] \<or> c = ''.'' then cleanElems rooted out cs
      else if c = ''..'' then
        (case out of
           [] \<Rightarrow> if rooted then cleanElems rooted [] cs else cleanElems rooted [''..''] cs
         | t # ts \<Rightarrow> if t = ''..'' then cleanElems rooted (''..'' # out) cs
                     else cleanElems rooted ts cs)
      else cleanElems rooted (c # out) cs)"

definition Clean :: "string \<Rightarrow> string" where
  "Clean p =
     (case p of
        [] \<Rightarrow> ''.''
      | c # cs \<Rightarrow>
          (let rooted = (c = CHR ''/'');
               s = (if rooted then ''/'' else []) @ Join (cleanElems rooted [] (Split p CHR ''/'')) ''/''
           in if s = [] then ''.'' else s))"

text \<open>\<^verbatim>\<open>path.Join(elem...)\<close>: the non-empty elements joined by slashes and cleaned; the
  empty string when every element is empty.\<close>

definition path_Join :: "string list \<Rightarrow> string" where
  "path_Join elem =
     (let es = filter (\<lambda>e. e \<noteq> []) elem
      in if es = [] then [] else Clean (Join es ''/''))"

text \<open>\<^verbatim>\<open>path.Base(p)\<close>: the last element of the path, trailing slashes removed first.\<close>

definition Base :: "string \<Rightarrow> string" where
  "Base p =
     (if p = [] then ''.''
      else (let q = dropWhile (\<lambda>c. c = CHR ''/'') (rev p);
                b = rev (takeWhile (\<lambda>c. c \<noteq> CHR ''/'') q)
            in if b = [] then ''/'' else b))"

text \<open>\<^verbatim>\<open>path.Ext(p)\<close>: the suffix starting at the last dot of the last element, empty
  when that element has no dot.\<close>

definition Ext :: "string \<Rightarrow> string" where
  "Ext p =
     (let t = takeWhile (\<lambda>c. c \<noteq> CHR ''/'') (rev p)
      in if CHR ''.'' \<in> set t then rev (takeWhile (\<lambda>c. c \<noteq> CHR ''.'') t @ ''.'') else [])"


section \<open>Descriptors (the decoded request)\<close>

text \<open>
  The descriptor types belong to the protobuf library.  The generator reads them through
  their getters, which give the empty string (or the first enum value) for an unset
  field, so a field of the model holds what the getter returns.  The exception is the
  label of a field, which \<^verbatim>\<open>isRepeated\<close> reads as a pointer.
\<close>

datatype FieldType =
    TYPE_DOUBLE | TYPE_FLOAT | TYPE_INT64 | TYPE_UINT64 | TYPE_INT32
  | TYPE_FIXED64 | TYPE_FIXED32 | TYPE_BOOL | TYPE_STRING | TYPE_GROUP
  | TYPE_MESSAGE | TYPE_BYTES | TYPE_UINT32 | TYPE_ENUM
  | TYPE_SFIXED32 | TYPE_SFIXED64 | TYPE_SINT32 | TYPE_SINT64

datatype FieldLabel = LABEL_OPTIONAL | LABEL_REQUIRED | LABEL_REPEATED

record EnumValueDescriptorProto =
  EnumValue_Name :: string
  EnumValue_Number :: "32 word"

record EnumDescriptorProto =
  Enum_Name :: string
  Enum_Value :: "EnumValueDescriptorProto list"

record FieldDescriptorProto =
  Field_Name :: string
  Field_Type :: FieldType
  Field_TypeName :: string
  Field_Label :: "FieldLabel option"

datatype DescriptorProto =
  DescriptorProto
    (Message_Name: string)
    (Message_Field: "FieldDescriptorProto list")
    (Message_NestedType: "DescriptorProto list")
    (Message_EnumType: "EnumDescriptorProto list")

record MethodDescriptorProto =
  Method_Name :: string
  Method_InputType :: string
  Method_OutputType :: string

record ServiceDescriptorProto =
  Service_Name :: string
  Service_Method :: "MethodDescriptorProto list"

record FileDescriptorProto =
  File_Name :: string
  File_Package :: string
  File_EnumType :: "EnumDescriptorProto list"
  File_MessageType :: "DescriptorProto list"
  File_Service :: "ServiceDescriptorProto list"

record CodeGeneratorRequest =
  ProtoFile :: "FileDescriptorProto list"


section \<open>The intermediate model (template values)\<close>

record importValues =
  import_Name :: string
  import_Path :: string

record enumKeyVal =
  kv_Name :: string
  kv_Value :: "32 word"

record enumValues =
  enum_Name :: string
  enum_Values :: "enumKeyVal list"

record fieldValues =
  fv_Name :: string
  fv_Field :: string
  fv_Type :: string
  fv_IsEnum :: bool
  fv_IsRepeated :: bool

datatype messageValues =
  messageValues
    (mv_Name: string)
    (mv_Interface: string)
    (mv_JSONInterface: string)
    (mv_Fields: "fieldValues list")
    (mv_NestedTypes: "messageValues list")
    (mv_NestedEnums: "enumValues list")

record serviceMethodValues =
  smv_Name :: string
  smv_Path :: string
  smv_InputType :: string
  smv_OutputType :: string

record serviceValues =
  sv_Package :: string
  sv_Name :: string
  sv_Interface :: string
  sv_Methods :: "serviceMethodValues list"

record protoFile =
  Output :: string
  RelativeImportBase :: string
  Imports :: "string \<rightharpoonup> importValues"
  Messages :: "messageValues list"
  Services :: "serviceValues list"
  Enums :: "enumValues list"

record exportValues =
  Exports :: "string list"


section \<open>Errors\<close>

text \<open>
  A run of the generator ends early in three ways: a slice expression out of range
  panics, the registry refuses a second declaration of a name, and a failed template
  makes \<^verbatim>\<open>log.Fatal\<close> exit.  \<open>MissingType\<close> is the error value of \<^verbatim>\<open>Resolve\<close>, which
  the generator tests and never propagates.
\<close>

datatype error = SliceBoundsPanic | DuplicateDeclaration | MissingType | TemplateFatal


section \<open>Names and paths\<close>

definition sameFile :: "FileDescriptorProto \<Rightarrow> FileDescriptorProto \<Rightarrow> bool" where
  "sameFile a b = (File_Name a = File_Name b)"

definition fullTypeName :: "FileDescriptorProto \<Rightarrow> string \<Rightarrow> string" where
  "fullTypeName fd typeName = ''.'' @ File_Package fd @ ''.'' @ typeName"

definition isRepeated :: "FieldDescriptorProto \<Rightarrow> bool" where
  "isRepeated field = (Field_Label field \<noteq> None \<and> Field_Label field = Some LABEL_REPEATED)"

text \<open>\<^verbatim>\<open>p[len(p)-1]\<close> is \<^term>\<open>last p\<close>: \<^verbatim>\<open>SplitN\<close> with a limit of 3 never returns an
  empty slice (lemma \<open>SplitN_3_not_Nil\<close> below).\<close>

definition removePkg :: "string \<Rightarrow> string" where
  "removePkg s =
     (let p = SplitN s CHR ''.'' 3;
          c = Split (last p) CHR ''.''
      in Join c ''_'')"

text \<open>\<^verbatim>\<open>upperCaseFirst\<close>, \<^verbatim>\<open>camelCase\<close> and \<^verbatim>\<open>methodName\<close> slice \<^verbatim>\<open>s[0:1]\<close>, which
  panics on the empty string.\<close>

definition upperCaseFirst :: "string \<Rightarrow> error + string" where
  "upperCaseFirst s = (case s of [] \<Rightarrow> Inl SliceBoundsPanic | c # cs \<Rightarrow> Inr (ToUpper1 c @ cs))"

text \<open>The loop of \<^verbatim>\<open>camelCase\<close> over \<^verbatim>\<open>parts\<close>, from index \<open>i\<close> on.\<close>

fun camelCaseParts :: "nat \<Rightarrow> string list \<Rightarrow> error + string list" where
  "camelCaseParts i [] = Inr []"
| "camelCaseParts i (p # ps) =
     (if i = 0 then
        (case camelCaseParts (Suc i) ps of Inl e \<Rightarrow> Inl e | Inr r \<Rightarrow> Inr (p # r))
      else
        (case p of
           [] \<Rightarrow> Inl SliceBoundsPanic
         | c # cs \<Rightarrow>
             (case camelCaseParts (Suc i) ps of
                Inl e \<Rightarrow> Inl e
              | Inr r \<Rightarrow> Inr ((ToUpper1 c @ cs) # r))))"

definition camelCase :: "string \<Rightarrow> error + string" where
  "camelCase s =
     (case camelCaseParts 0 (Split s CHR ''_'') of
        Inl e \<Rightarrow> Inl e
      | Inr parts \<Rightarrow> Inr (Join parts []))"

definition methodName :: "string \<Rightarrow> error + string" where
  "methodName method =
     (case method of [] \<Rightarrow> Inl SliceBoundsPanic | c # cs \<Rightarrow> Inr (ToLower1 c @ cs))"

definition tsImportPath :: "FileDescriptorProto \<Rightarrow> string" where
  "tsImportPath fd = path_Join (Split (File_Package fd) CHR ''.'')"

definition relativeImportBase :: "FileDescriptorProto \<Rightarrow> string" where
  "relativeImportBase fd = Repeat ''../'' (length (Split (tsImportPath fd) CHR ''/''))"

definition tsFileName :: "FileDescriptorProto \<Rightarrow> string" where
  "tsFileName fd =
     (let filename = TrimSuffix (Base (File_Name fd)) (Ext (File_Name fd)) @ ''.ts''
      in path_Join [tsImportPath fd, filename])"

definition typeToInterface :: "string \<Rightarrow> string" where
  "typeToInterface typeName = ''I'' @ typeName"

definition typeToJSONInterface :: "string \<Rightarrow> string" where
  "typeToJSONInterface typeName = ''I'' @ typeName @ ''JSON''"


section \<open>Field Type Mapper\<close>

text \<open>The message argument of \<^verbatim>\<open>singularFieldType\<close> is not used by its body.\<close>

fun singularFieldType :: "DescriptorProto \<Rightarrow> FieldDescriptorProto \<Rightarrow> string" where
  "singularFieldType m f =
     (case Field_Type f of
        TYPE_DOUBLE \<Rightarrow> ''number''
      | TYPE_FIXED32 \<Rightarrow> ''number''
      | TYPE_FIXED64 \<Rightarrow> ''number''
      | TYPE_INT32 \<Rightarrow> ''number''
      | TYPE_INT64 \<Rightarrow> ''number''
      | TYPE_UINT32 \<Rightarrow> ''number''
      | TYPE_UINT64 \<Rightarrow> ''number''
      | TYPE_ENUM \<Rightarrow> removePkg (Field_TypeName f)
      | TYPE_STRING \<Rightarrow> ''string''
      | TYPE_BOOL \<Rightarrow> ''boolean''
      | TYPE_MESSAGE \<Rightarrow>
          (let name = Field_TypeName f
           in if name = ''.google.protobuf.Timestamp'' then ''Date'' else removePkg name)
      | _ \<Rightarrow> ''string'')"

definition fieldType :: "fieldValues \<Rightarrow> string" where
  "fieldType f =
     (let t = fv_Type f;
          t = (if t = ''Date'' then ''string'' else t)
      in if fv_IsRepeated f then t @ ''[]'' else t)"


section \<open>Type Resolver / Registry\<close>

text \<open>
  The type \<^verbatim>\<open>dependencyResolver\<close> and its methods \<^verbatim>\<open>Set\<close>, \<^verbatim>\<open>Resolve\<close> and
  \<^verbatim>\<open>TypeName\<close> are called by \<^verbatim>\<open>generate\<close> but are not part of the available
  sources, and neither is the method \<^verbatim>\<open>AddImport\<close> of \<^verbatim>\<open>protoFile\<close>.  The four
  definitions below follow the specification's description of the registry.
\<close>

type_synonym dependencyResolver = "string \<rightharpoonup> FileDescriptorProto"

text \<open>Modelled from the spec: \<^verbatim>\<open>dependencyResolver.Set\<close> is missing from the sources.
  The spec's \<^verbatim>\<open>Declare(file, schemaLocalName)\<close> registers the local name, under its
  fully-qualified name, as belonging to the file, and treats a second declaration of the
  same fully-qualified name as a fatal error.\<close>

definition Set_resolver ::
  "dependencyResolver \<Rightarrow> FileDescriptorProto \<Rightarrow> string \<Rightarrow> error + dependencyResolver" where
  "Set_resolver d fd messageName =
     (case d (fullTypeName fd messageName) of
        Some owner \<Rightarrow> Inl DuplicateDeclaration
      | None \<Rightarrow> Inr (d(fullTypeName fd messageName \<mapsto> fd)))"

text \<open>Modelled from the spec: \<^verbatim>\<open>dependencyResolver.Resolve\<close> is missing from the
  sources.  The spec's \<^verbatim>\<open>Resolve(fullyQualifiedName)\<close> looks up which file declared the
  name; a name that was not declared is reported as not found.\<close>

definition Resolve :: "dependencyResolver \<Rightarrow> string \<Rightarrow> error + FileDescriptorProto" where
  "Resolve d typeName = (case d typeName of None \<Rightarrow> Inl MissingType | Some fp \<Rightarrow> Inr fp)"

text \<open>Modelled from the spec: \<^verbatim>\<open>dependencyResolver.TypeName\<close> is missing from the
  sources.  The spec's \<^verbatim>\<open>OutputTypeName(file, localOrQualifiedName)\<close> gives the name
  with its package qualification stripped, for a reference that resolves (the data type's
  own name) and for one that does not (the best-effort local-name form) alike; the
  well-known override \<^verbatim>\<open>Date\<close> carries no qualification and so passes through.\<close>

definition TypeName ::
  "dependencyResolver \<Rightarrow> FileDescriptorProto \<Rightarrow> string \<Rightarrow> string" where
  "TypeName d fd typeName =
     (case Resolve d typeName of
        Inr orig \<Rightarrow> removePkg typeName
      | Inl err \<Rightarrow> removePkg typeName)"

text \<open>Modelled from the spec: \<^verbatim>\<open>protoFile.AddImport\<close> is missing from the sources.  The
  spec records an import requirement against the current file, keyed by the owning
  file's output path and carrying the output identifier that is needed; several types
  of one external file collapse into the one entry of that file.\<close>

definition AddImport :: "protoFile \<Rightarrow> FileDescriptorProto \<Rightarrow> string \<Rightarrow> protoFile" where
  "AddImport pf fp typeName =
     pf\<lparr>Imports := (Imports pf)(tsFileName fp \<mapsto>
           \<lparr>import_Name = typeName, import_Path = tsFileName fp\<rparr>)\<rparr>"


section \<open>Model Builder\<close>

text \<open>
  \<^verbatim>\<open>generate\<close> is one pass over the files of the request.  Its loops are the recursive
  functions below; each takes the state its loop body changes (the registry, the file
  model under construction, the lines written with \<^verbatim>\<open>log.Printf\<close>) and returns it
  updated, or the error that ends the run.
\<close>

text \<open>The inner loop over the values of an enum (lines 55-60 and 98-103).\<close>

definition enumKeyVals :: "EnumDescriptorProto \<Rightarrow> enumKeyVal list" where
  "enumKeyVals enum =
     map (\<lambda>value. \<lparr>kv_Name = EnumValue_Name value, kv_Value = EnumValue_Number value\<rparr>)
       (Enum_Value enum)"

text \<open>The loop over the enums of a file (lines 47-63).\<close>

fun addEnums ::
  "FileDescriptorProto \<Rightarrow> EnumDescriptorProto list \<Rightarrow> dependencyResolver \<times> protoFile
     \<Rightarrow> error + (dependencyResolver \<times> protoFile)" where
  "addEnums file [] (resolver, pfile) = Inr (resolver, pfile)"
| "addEnums file (enum # enums) (resolver, pfile) =
     (case Set_resolver resolver file (Enum_Name enum) of
        Inl e \<Rightarrow> Inl e
      | Inr resolver' \<Rightarrow>
          (let v = \<lparr>enum_Name = Enum_Name enum, enum_Values = enumKeyVals enum\<rparr>
           in addEnums file enums (resolver', pfile\<lparr>Enums := Enums pfile @ [v]\<rparr>)))"

text \<open>The loop over the enums nested in a message (lines 92-106).\<close>

definition nestedEnums :: "DescriptorProto \<Rightarrow> enumValues list" where
  "nestedEnums message =
     map (\<lambda>enum. \<lparr>enum_Name = Message_Name message @ ''_'' @ Enum_Name enum,
                   enum_Values = enumKeyVals enum\<rparr>)
       (Message_EnumType message)"

text \<open>The import a reference may add to the file model (lines 111-116, 146-151 and
  155-160): the referenced name has to resolve, and to a file other than the current
  one.\<close>

definition recordImport ::
  "dependencyResolver \<Rightarrow> FileDescriptorProto \<Rightarrow> string \<Rightarrow> string \<Rightarrow> protoFile \<Rightarrow> protoFile" where
  "recordImport resolver file ref typeName pfile =
     (case Resolve resolver ref of
        Inr fp \<Rightarrow> if \<not> sameFile fp file then AddImport pfile fp typeName else pfile
      | Inl err \<Rightarrow> pfile)"

text \<open>The loop over the fields of a message (lines 109-126); \<open>fs\<close> is \<^verbatim>\<open>v.Fields\<close>.\<close>

fun addFields ::
  "dependencyResolver \<Rightarrow> FileDescriptorProto \<Rightarrow> DescriptorProto \<Rightarrow> FieldDescriptorProto list
     \<Rightarrow> protoFile \<times> fieldValues list \<Rightarrow> error + (protoFile \<times> fieldValues list)" where
  "addFields resolver file message [] (pfile, fs) = Inr (pfile, fs)"
| "addFields resolver file message (field # rest) (pfile, fs) =
     (let typeName = TypeName resolver file (singularFieldType message field);
          pfile' = recordImport resolver file (Field_TypeName field) typeName pfile
      in case camelCase (Field_Name field) of
           Inl e \<Rightarrow> Inl e
         | Inr cc \<Rightarrow>
             addFields resolver file message rest
               (pfile', fs @ [\<lparr>fv_Name = Field_Name field, fv_Field = cc, fv_Type = typeName,
                               fv_IsEnum = (Field_Type field = TYPE_ENUM),
                               fv_IsRepeated = isRepeated field\<rparr>]))"

definition nestedWarning :: string where
  "nestedWarning = ''warning: nested messages are not supported yet''"

text \<open>The body of the loop over the messages of a file (lines 67-128): the message and
  its two interface names are declared, a message with nested messages is warned about,
  and the model of the message is appended to the file model.\<close>

definition addMessage ::
  "FileDescriptorProto \<Rightarrow> DescriptorProto \<Rightarrow> dependencyResolver \<times> protoFile \<times> string list
     \<Rightarrow> error + (dependencyResolver \<times> protoFile \<times> string list)" where
  "addMessage file message st =
     (case st of (resolver, pfile, lg) \<Rightarrow>
     (let name = Message_Name message;
          tsInterface = typeToInterface name;
          jsonInterface = typeToJSONInterface name
      in case Set_resolver resolver file name of
           Inl e \<Rightarrow> Inl e
         | Inr r1 \<Rightarrow>
        (case Set_resolver r1 file tsInterface of
           Inl e \<Rightarrow> Inl e
         | Inr r2 \<Rightarrow>
        (case Set_resolver r2 file jsonInterface of
           Inl e \<Rightarrow> Inl e
         | Inr r3 \<Rightarrow>
             (let lg' = (if length (Message_NestedType message) > 0
                         then lg @ [nestedWarning] else lg)
              in case addFields r3 file message (Message_Field message) (pfile, []) of
                   Inl e \<Rightarrow> Inl e
                 | Inr (pfile', fs) \<Rightarrow>
                     (let v = messageValues name tsInterface jsonInterface fs []
                                (nestedEnums message)
                      in Inr (r3, pfile'\<lparr>Messages := Messages pfile' @ [v]\<rparr>, lg')))))))"

text \<open>The loop over the messages of a file (lines 66-129).\<close>

fun addMessages ::
  "FileDescriptorProto \<Rightarrow> DescriptorProto list \<Rightarrow> dependencyResolver \<times> protoFile \<times> string list
     \<Rightarrow> error + (dependencyResolver \<times> protoFile \<times> string list)" where
  "addMessages file [] st = Inr st"
| "addMessages file (message # messages) st =
     (case addMessage file message st of
        Inl e \<Rightarrow> Inl e
      | Inr st' \<Rightarrow> addMessages file messages st')"

text \<open>The loop over the methods of a service (lines 142-168); \<open>ms\<close> is \<^verbatim>\<open>v.Methods\<close>.
  The path of a method model is never set.\<close>

fun addMethods ::
  "dependencyResolver \<Rightarrow> FileDescriptorProto \<Rightarrow> MethodDescriptorProto list
     \<Rightarrow> protoFile \<times> serviceMethodValues list \<Rightarrow> protoFile \<times> serviceMethodValues list" where
  "addMethods resolver file [] (pfile, ms) = (pfile, ms)"
| "addMethods resolver file (method # methods) (pfile, ms) =
     (let inputType = TypeName resolver file (removePkg (Method_InputType method));
          outputType = TypeName resolver file (removePkg (Method_OutputType method));
          pfile1 = recordImport resolver file (Method_InputType method) inputType pfile;
          pfile2 = recordImport resolver file (Method_OutputType method) outputType pfile1
      in addMethods resolver file methods
           (pfile2, ms @ [\<lparr>smv_Name = Method_Name method, smv_Path = [],
                            smv_InputType = inputType, smv_OutputType = outputType\<rparr>]))"

text \<open>The body of the loop over the services of a file (lines 133-170).\<close>

definition addService ::
  "FileDescriptorProto \<Rightarrow> ServiceDescriptorProto \<Rightarrow> dependencyResolver \<times> protoFile
     \<Rightarrow> error + (dependencyResolver \<times> protoFile)" where
  "addService file service st =
     (case st of (resolver, pfile) \<Rightarrow>
     (case Set_resolver resolver file (Service_Name service) of
        Inl e \<Rightarrow> Inl e
      | Inr resolver' \<Rightarrow>
          (case addMethods resolver' file (Service_Method service) (pfile, []) of
             (pfile', ms) \<Rightarrow>
               (let v = \<lparr>sv_Package = File_Package file, sv_Name = Service_Name service,
                         sv_Interface = typeToInterface (Service_Name service),
                         sv_Methods = ms\<rparr>
                in Inr (resolver', pfile'\<lparr>Services := Services pfile' @ [v]\<rparr>)))))"

text \<open>The loop over the services of a file (lines 132-171).\<close>

fun addServices ::
  "FileDescriptorProto \<Rightarrow> ServiceDescriptorProto list \<Rightarrow> dependencyResolver \<times> protoFile
     \<Rightarrow> error + (dependencyResolver \<times> protoFile)" where
  "addServices file [] st = Inr st"
| "addServices file (service # services) st =
     (case addService file service st of
        Inl e \<Rightarrow> Inl e
      | Inr st' \<Rightarrow> addServices file services st')"

text \<open>The body of the loop over the files (lines 36-171), without the entry into
  \<^verbatim>\<open>outputFiles\<close>: the model of one file, built against the registry as the earlier
  files left it.  \<open>newProtoFile\<close> is the struct literal of lines 36-43.\<close>

definition newProtoFile :: "FileDescriptorProto \<Rightarrow> protoFile" where
  "newProtoFile file =
     \<lparr>Output = tsFileName file, RelativeImportBase = relativeImportBase file,
      Imports = Map.empty, Messages = [], Services = [], Enums = []\<rparr>"

definition buildFile ::
  "FileDescriptorProto \<Rightarrow> dependencyResolver \<times> string list
     \<Rightarrow> error + (dependencyResolver \<times> protoFile \<times> string list)" where
  "buildFile file st =
     (case st of (resolver, lg) \<Rightarrow>
        (let pfile = newProtoFile file
         in case addEnums file (File_EnumType file) (resolver, pfile) of
              Inl e \<Rightarrow> Inl e
            | Inr (r1, pfile1) \<Rightarrow>
           (case addMessages file (File_MessageType file) (r1, pfile1, lg) of
              Inl e \<Rightarrow> Inl e
            | Inr (r2, pfile2, lg2) \<Rightarrow>
           (case addServices file (File_Service file) (r2, pfile2) of
              Inl e \<Rightarrow> Inl e
            | Inr (r3, pfile3) \<Rightarrow> Inr (r3, pfile3, lg2)))))"

text \<open>
  The loop over the files (lines 35-172).  The source appends the pointer to the file
  model to its group of \<^verbatim>\<open>outputFiles\<close> before it fills the model in; nothing reads the
  group before the loop ends, so the model is appended here once it is complete.
\<close>

fun buildFiles ::
  "FileDescriptorProto list
     \<Rightarrow> dependencyResolver \<times> (string \<rightharpoonup> protoFile list) \<times> string list
     \<Rightarrow> error + (dependencyResolver \<times> (string \<rightharpoonup> protoFile list) \<times> string list)" where
  "buildFiles [] (resolver, outputFiles, lg) = Inr (resolver, outputFiles, lg)"
| "buildFiles (file # files) (resolver, outputFiles, lg) =
     (case buildFile file (resolver, lg) of
        Inl e \<Rightarrow> Inl e
      | Inr (resolver', pfile, lg') \<Rightarrow>
          buildFiles files
            (resolver',
             outputFiles(tsImportPath file \<mapsto>
               (case outputFiles (tsImportPath file) of None \<Rightarrow> [] | Some pff \<Rightarrow> pff) @ [pfile]),
             lg'))"


section \<open>Emission\<close>

text \<open>
  The text of a file comes from the template engine of the Go library, run on the
  templates of the repository; the template of the index file, the \<^verbatim>\<open>compile\<close>
  helper of the templates and the constants \<^verbatim>\<open>twirpFileName\<close> and \<^verbatim>\<open>twirpSource\<close> are
  not part of the available sources.  What \<^verbatim>\<open>generate\<close> does with them does not depend
  on how they are written, so they are parameters of the model: \<open>Compile_protoFile\<close> is
  \<^verbatim>\<open>pf.Compile()\<close> and \<open>Compile_exportValues\<close> is \<^verbatim>\<open>ev.Compile()\<close>, each giving the
  text or an error.
\<close>

record renderer =
  twirpFileName :: string
  twirpSource :: string
  Compile_protoFile :: "protoFile \<Rightarrow> error + string"
  Compile_exportValues :: "exportValues \<Rightarrow> error + string"

record CodeGeneratorResponse_File =
  Name :: string
  Content :: string

text \<open>The loop over the file models of one output directory (lines 177-191).\<close>

fun compileFiles ::
  "renderer \<Rightarrow> protoFile list \<Rightarrow> exportValues \<times> CodeGeneratorResponse_File list
     \<Rightarrow> error + (exportValues \<times> CodeGeneratorResponse_File list)" where
  "compileFiles R [] (ev, res) = Inr (ev, res)"
| "compileFiles R (pf # pff) (ev, res) =
     (let ev' = ev\<lparr>Exports := Exports ev @ [TrimSuffix (Base (Output pf)) ''.ts'']\<rparr>
      in case Compile_protoFile R pf of
           Inl err \<Rightarrow> Inl TemplateFatal
         | Inr content \<Rightarrow>
             compileFiles R pff (ev', res @ [\<lparr>Name = Output pf, Content = content\<rparr>]))"

text \<open>
  The body of the loop over \<^verbatim>\<open>outputFiles\<close> (lines 175-202), for the directory
  \<open>tsPath\<close>: the files of the directory, then its index.  A key that is not in the map
  has no group and adds nothing.
\<close>

definition emitPackage ::
  "renderer \<Rightarrow> (string \<rightharpoonup> protoFile list) \<Rightarrow> string \<Rightarrow> CodeGeneratorResponse_File list
     \<Rightarrow> error + CodeGeneratorResponse_File list" where
  "emitPackage R outputFiles tsPath res =
     (case outputFiles tsPath of
        None \<Rightarrow> Inr res
      | Some pff \<Rightarrow>
          (case compileFiles R pff (\<lparr>Exports = []\<rparr>, res) of
             Inl e \<Rightarrow> Inl e
           | Inr (ev, res') \<Rightarrow>
               (case Compile_exportValues R ev of
                  Inl err \<Rightarrow> Inl TemplateFatal
                | Inr content \<Rightarrow>
                    Inr (res' @ [\<lparr>Name = path_Join [tsPath, ''index.ts''],
                                  Content = content\<rparr>]))))"

text \<open>
  The loop over \<^verbatim>\<open>outputFiles\<close> (lines 174-203).  Go visits the keys of a map in an
  order it does not specify, which may change from one run to the next; \<open>order\<close> is the
  order of the run at hand, an enumeration of the keys of the map.
\<close>

fun emitPackages ::
  "renderer \<Rightarrow> (string \<rightharpoonup> protoFile list) \<Rightarrow> string list \<Rightarrow> CodeGeneratorResponse_File list
     \<Rightarrow> error + CodeGeneratorResponse_File list" where
  "emitPackages R outputFiles [] res = Inr res"
| "emitPackages R outputFiles (tsPath # order) res =
     (case emitPackage R outputFiles tsPath res of
        Inl e \<Rightarrow> Inl e
      | Inr res' \<Rightarrow> emitPackages R outputFiles order res')"

text \<open>An iteration order of a map: each key once.\<close>

definition iterationOrder :: "string list \<Rightarrow> (string \<rightharpoonup> 'v) \<Rightarrow> bool" where
  "iterationOrder order m = (distinct order \<and> set order = dom m)"

text \<open>
  \<^verbatim>\<open>generate\<close>: the model pass, the emission, and one log line for each file of the
  response.  The result is the list of files of the response together with the lines
  logged; the Go function returns no error of its own.
\<close>

definition generate ::
  "renderer \<Rightarrow> string list \<Rightarrow> CodeGeneratorRequest
     \<Rightarrow> error + (CodeGeneratorResponse_File list \<times> string list)" where
  "generate R order req =
     (let res = [\<lparr>Name = twirpFileName R, Content = twirpSource R\<rparr>]
      in case buildFiles (ProtoFile req) (Map.empty, Map.empty, []) of
           Inl e \<Rightarrow> Inl e
         | Inr (resolver, outputFiles, lg) \<Rightarrow>
             (case emitPackages R outputFiles order res of
                Inl e \<Rightarrow> Inl e
              | Inr res' \<Rightarrow> Inr (res', lg @ map (\<lambda>f. ''wrote: '' @ Name f) res')))"

text \<open>
  The declaration of one field in the public interface of a message (line 63 of the
  message template, \<^verbatim>\<open>{{.Field }}?: {{. | fieldType}}\<close>) and in its JSON-shape interface
  (line 79, \<^verbatim>\<open>{{$v.Name}}?: {{ $v | fieldType }}\<close>).
\<close>

definition interfaceDecl :: "fieldValues \<Rightarrow> string" where
  "interfaceDecl f = fv_Field f @ ''?: '' @ fieldType f"

definition jsonInterfaceDecl :: "fieldValues \<Rightarrow> string" where
  "jsonInterfaceDecl f = fv_Name f @ ''?: '' @ fieldType f"


text \<open>
  The two interfaces of a message as the message template writes them (its lines 60-67
  and 77-81), after the template engine has trimmed the white space next to the
  \<^verbatim>\<open>{{-\<close> markers.
\<close>

definition publicInterface :: "messageValues \<Rightarrow> string" where
  "publicInterface v =
     ''export interface '' @ mv_Interface v @ '' {''
     @ (if mv_Fields v \<noteq> []
        then concat (map (\<lambda>f. [CHR 0x0A] @ ''  '' @ interfaceDecl f) (mv_Fields v))
             @ [CHR 0x0A] @ ''  ''
        else [])
     @ [CHR 0x0A] @ ''  toJSON?(): object'' @ [CHR 0x0A] @ ''}''"

definition jsonInterface :: "messageValues \<Rightarrow> string" where
  "jsonInterface v =
     ''export interface '' @ mv_JSONInterface v @ '' {''
     @ concat (map (\<lambda>f. [CHR 0x0A] @ ''  '' @ jsonInterfaceDecl f) (mv_Fields v))
     @ [CHR 0x0A] @ ''}''"


section \<open>Notions used in the statements\<close>

text \<open>The names a file declares into the registry, in the order of the calls of
  \<^verbatim>\<open>resolver.Set\<close>: its enums, then each message with its two interface names, then
  its services.\<close>

definition declaredNames :: "FileDescriptorProto \<Rightarrow> string list" where
  "declaredNames file =
     map Enum_Name (File_EnumType file)
     @ concat (map (\<lambda>m. [Message_Name m, typeToInterface (Message_Name m),
                            typeToJSONInterface (Message_Name m)]) (File_MessageType file))
     @ map Service_Name (File_Service file)"

text \<open>Declaring a list of names one after the other.\<close>

fun setAll ::
  "dependencyResolver \<Rightarrow> FileDescriptorProto \<Rightarrow> string list \<Rightarrow> error + dependencyResolver" where
  "setAll d fd [] = Inr d"
| "setAll d fd (n # ns) =
     (case Set_resolver d fd n of Inl e \<Rightarrow> Inl e | Inr d' \<Rightarrow> setAll d' fd ns)"

text \<open>Declaring the names of a list of files, file after file.\<close>

fun declareFiles ::
  "dependencyResolver \<Rightarrow> FileDescriptorProto list \<Rightarrow> error + dependencyResolver" where
  "declareFiles d [] = Inr d"
| "declareFiles d (fd # fds) =
     (case setAll d fd (declaredNames fd) of Inl e \<Rightarrow> Inl e | Inr d' \<Rightarrow> declareFiles d' fds)"

text \<open>The type names a file refers to: the type name of every field, and the input and
  output type of every method.\<close>

definition fileRefs :: "FileDescriptorProto \<Rightarrow> string list" where
  "fileRefs file =
     concat (map (\<lambda>m. map Field_TypeName (Message_Field m)) (File_MessageType file))
     @ concat (map (\<lambda>s. concat (map (\<lambda>mt. [Method_InputType mt, Method_OutputType mt])
                                     (Service_Method s))) (File_Service file))"

text \<open>File \<open>B\<close> refers to a name that file \<open>A\<close> declares.\<close>

definition references :: "FileDescriptorProto \<Rightarrow> FileDescriptorProto \<Rightarrow> bool" where
  "references B A =
     (\<exists>ref \<in> set (fileRefs B). ref \<in> set (map (fullTypeName A) (declaredNames A)))"

text \<open>The output paths of the files that own, in the given registry, one of the given
  names, the current file (by name) left out.\<close>

definition importKeys ::
  "dependencyResolver \<Rightarrow> FileDescriptorProto \<Rightarrow> string list \<Rightarrow> string list" where
  "importKeys resolver file refs =
     map tsFileName (filter (\<lambda>fp. \<not> sameFile fp file) (List.map_filter resolver refs))"

text \<open>The file model \<open>pfile\<close> is a complete model of the file \<open>fd\<close>, built against the
  registry \<open>r0\<close>: it has the output path of the file, its enums with their values, every
  message with its interface names, its nested enums and no nested type, every field with
  its wire name, its accessor name, its flags and its type, every service with its
  package and its interface name, every method with its name and its types, all in
  declaration order; the type of a field or method is what \<^verbatim>\<open>singularFieldType\<close> and
  \<^verbatim>\<open>removePkg\<close> make of its type name; and the import entries are those of the
  references that resolve in \<open>r0\<close>.\<close>

definition modelOf :: "dependencyResolver \<Rightarrow> FileDescriptorProto \<Rightarrow> protoFile \<Rightarrow> bool" where
  "modelOf r0 fd pfile \<longleftrightarrow>
     Output pfile = tsFileName fd
     \<and> RelativeImportBase pfile = relativeImportBase fd
     \<and> Enums pfile
         = map (\<lambda>e. \<lparr>enum_Name = Enum_Name e, enum_Values = enumKeyVals e\<rparr>) (File_EnumType fd)
     \<and> map mv_Name (Messages pfile) = map Message_Name (File_MessageType fd)
     \<and> map mv_Interface (Messages pfile)
         = map (\<lambda>m. typeToInterface (Message_Name m)) (File_MessageType fd)
     \<and> map mv_JSONInterface (Messages pfile)
         = map (\<lambda>m. typeToJSONInterface (Message_Name m)) (File_MessageType fd)
     \<and> map mv_NestedEnums (Messages pfile) = map nestedEnums (File_MessageType fd)
     \<and> map mv_NestedTypes (Messages pfile) = map (\<lambda>m. []) (File_MessageType fd)
     \<and> map (\<lambda>v. map fv_Name (mv_Fields v)) (Messages pfile)
         = map (\<lambda>m. map Field_Name (Message_Field m)) (File_MessageType fd)
     \<and> map (\<lambda>v. map (\<lambda>x. Inr (fv_Field x)) (mv_Fields v)) (Messages pfile)
         = map (\<lambda>m. map (\<lambda>f. camelCase (Field_Name f)) (Message_Field m)) (File_MessageType fd)
     \<and> map (\<lambda>v. map fv_Type (mv_Fields v)) (Messages pfile)
         = map (\<lambda>m. map (\<lambda>f. removePkg (singularFieldType m f)) (Message_Field m))
             (File_MessageType fd)
     \<and> map (\<lambda>v. map fv_IsEnum (mv_Fields v)) (Messages pfile)
         = map (\<lambda>m. map (\<lambda>f. Field_Type f = TYPE_ENUM) (Message_Field m)) (File_MessageType fd)
     \<and> map (\<lambda>v. map fv_IsRepeated (mv_Fields v)) (Messages pfile)
         = map (\<lambda>m. map isRepeated (Message_Field m)) (File_MessageType fd)
     \<and> map sv_Name (Services pfile) = map Service_Name (File_Service fd)
     \<and> map sv_Package (Services pfile) = map (\<lambda>s. File_Package fd) (File_Service fd)
     \<and> map sv_Interface (Services pfile)
         = map (\<lambda>s. typeToInterface (Service_Name s)) (File_Service fd)
     \<and> map (\<lambda>v. map smv_Name (sv_Methods v)) (Services pfile)
         = map (\<lambda>s. map Method_Name (Service_Method s)) (File_Service fd)
     \<and> map (\<lambda>v. map smv_InputType (sv_Methods v)) (Services pfile)
         = map (\<lambda>s. map (\<lambda>mt. removePkg (Method_InputType mt)) (Service_Method s))
             (File_Service fd)
     \<and> map (\<lambda>v. map smv_OutputType (sv_Methods v)) (Services pfile)
         = map (\<lambda>s. map (\<lambda>mt. removePkg (Method_OutputType mt)) (Service_Method s))
             (File_Service fd)
     \<and> dom (Imports pfile)
         = set (importKeys r0 fd (filter (\<lambda>ref. r0 ref \<noteq> None) (fileRefs fd)))"

text \<open>The wire types that the mapping table of the Field Type Mapper names: the two
  floating-point types, the ten integer types, string, bool, enum and message.  The
  remaining wire types are \<open>TYPE_BYTES\<close> and \<open>TYPE_GROUP\<close>.\<close>

definition tableType :: "FieldType \<Rightarrow> bool" where
  "tableType t = (t \<noteq> TYPE_BYTES \<and> t \<noteq> TYPE_GROUP)"

text \<open>The lines logged by a step that may fail.\<close>

definition logOf :: "error + ('a \<times> 'b \<times> string list) \<Rightarrow> string list" where
  "logOf result = (case result of Inl e \<Rightarrow> [] | Inr (x, y, lg) \<Rightarrow> lg)"

text \<open>The file models of one output directory after a model pass, and the lines the
  pass logged.\<close>

definition modelsOf ::
  "error + (dependencyResolver \<times> (string \<rightharpoonup> protoFile list) \<times> string list)
     \<Rightarrow> string \<Rightarrow> protoFile list" where
  "modelsOf result tsPath =
     (case result of
        Inl e \<Rightarrow> []
      | Inr (resolver, outputFiles, lg) \<Rightarrow>
          (case outputFiles tsPath of None \<Rightarrow> [] | Some pff \<Rightarrow> pff))"

text \<open>The files that the visit of one output directory adds to the response.\<close>

definition packageFiles ::
  "renderer \<Rightarrow> (string \<rightharpoonup> protoFile list) \<Rightarrow> string \<Rightarrow> CodeGeneratorResponse_File list" where
  "packageFiles R outputFiles tsPath =
     (case emitPackage R outputFiles tsPath [] of Inl e \<Rightarrow> [] | Inr fs \<Rightarrow> fs)"

definition outputFilesOf :: "CodeGeneratorRequest \<Rightarrow> (string \<rightharpoonup> protoFile list)" where
  "outputFilesOf req =
     (case buildFiles (ProtoFile req) (Map.empty, Map.empty, []) of
        Inl e \<Rightarrow> Map.empty
      | Inr (resolver, outputFiles, lg) \<Rightarrow> outputFiles)"


section \<open>Sample inputs\<close>

text \<open>Small descriptors on which the theorems below are instantiated.\<close>

definition stringField :: "string \<Rightarrow> FieldDescriptorProto" where
  "stringField n =
     \<lparr>Field_Name = n, Field_Type = TYPE_STRING, Field_TypeName = [],
      Field_Label = Some LABEL_OPTIONAL\<rparr>"

definition scalarField :: "string \<Rightarrow> FieldType \<Rightarrow> FieldDescriptorProto" where
  "scalarField n t =
     \<lparr>Field_Name = n, Field_Type = t, Field_TypeName = [],
      Field_Label = Some LABEL_OPTIONAL\<rparr>"

definition messageField :: "string \<Rightarrow> string \<Rightarrow> FieldLabel \<Rightarrow> FieldDescriptorProto" where
  "messageField n tn l =
     \<lparr>Field_Name = n, Field_Type = TYPE_MESSAGE, Field_TypeName = tn, Field_Label = Some l\<rparr>"

definition catalogFile :: FileDescriptorProto where
  "catalogFile =
     \<lparr>File_Name = ''catalog.proto'', File_Package = ''catalog'',
      File_EnumType =
        [\<lparr>Enum_Name = ''Currency'',
          Enum_Value = [\<lparr>EnumValue_Name = ''USD'', EnumValue_Number = 0\<rparr>,
                        \<lparr>EnumValue_Name = ''EUR'', EnumValue_Number = 1\<rparr>]\<rparr>],
      File_MessageType =
        [DescriptorProto ''Item'' [stringField ''name'', scalarField ''qty'' TYPE_INT32] [] []],
      File_Service = []\<rparr>"

definition cartMessage :: DescriptorProto where
  "cartMessage =
     DescriptorProto ''Cart''
       [messageField ''items'' ''.catalog.Item'' LABEL_REPEATED,
        messageField ''first_item'' ''.catalog.Item'' LABEL_OPTIONAL,
        messageField ''parent'' ''.cart.Cart'' LABEL_OPTIONAL,
        messageField ''gift'' ''.gifts.Wrap'' LABEL_OPTIONAL]
       [] []"

definition cartFile :: FileDescriptorProto where
  "cartFile =
     \<lparr>File_Name = ''cart.proto'', File_Package = ''cart'',
      File_EnumType = [],
      File_MessageType = [cartMessage],
      File_Service =
        [\<lparr>Service_Name = ''CartService'',
          Service_Method =
            [\<lparr>Method_Name = ''GetCart'', Method_InputType = ''.cart.Cart'',
              Method_OutputType = ''.catalog.Item''\<rparr>]\<rparr>]\<rparr>"

text \<open>The registry as a pass over \<open>catalogFile\<close> leaves it.\<close>

definition catalogRegistry :: dependencyResolver where
  "catalogRegistry =
     [''.catalog.Currency'' \<mapsto> catalogFile, ''.catalog.Item'' \<mapsto> catalogFile,
      ''.catalog.IItem'' \<mapsto> catalogFile, ''.catalog.IItemJSON'' \<mapsto> catalogFile]"

definition shopRequest :: CodeGeneratorRequest where
  "shopRequest = \<lparr>ProtoFile = [catalogFile, cartFile]\<rparr>"

definition orderMessage :: DescriptorProto where
  "orderMessage =
     DescriptorProto ''Order''
       [messageField ''created_at'' ''.google.protobuf.Timestamp'' LABEL_OPTIONAL,
        messageField ''history'' ''.google.protobuf.Timestamp'' LABEL_REPEATED,
        scalarField ''payload'' TYPE_BYTES]
       [DescriptorProto ''Line'' [stringField ''sku''] [] [],
        DescriptorProto ''Note'' [stringField ''text''] [] []]
       [\<lparr>Enum_Name = ''Status'',
         Enum_Value = [\<lparr>EnumValue_Name = ''PENDING'', EnumValue_Number = 0\<rparr>,
                       \<lparr>EnumValue_Name = ''PAID'', EnumValue_Number = 1\<rparr>]\<rparr>]"

definition orderFile :: FileDescriptorProto where
  "orderFile =
     \<lparr>File_Name = ''order.proto'', File_Package = ''shop'',
      File_EnumType = [],
      File_MessageType = [orderMessage, DescriptorProto ''Receipt'' [stringField ''id''] [] []],
      File_Service = []\<rparr>"

text \<open>A file that refers, in a field and in a method, to the type \<^verbatim>\<open>Item\<close> of the
  package \<^verbatim>\<open>shop.v1\<close>, which no sample file declares.\<close>

definition parcelFile :: FileDescriptorProto where
  "parcelFile =
     \<lparr>File_Name = ''parcel.proto'', File_Package = ''parcel'',
      File_EnumType = [],
      File_MessageType =
        [DescriptorProto ''Parcel''
           [messageField ''item'' ''.shop.v1.Item'' LABEL_OPTIONAL, stringField ''note''] [] [],
         DescriptorProto ''Label'' [stringField ''text''] [] []],
      File_Service =
        [\<lparr>Service_Name = ''ParcelService'',
          Service_Method =
            [\<lparr>Method_Name = ''Track'', Method_InputType = ''.shop.v1.Item'',
              Method_OutputType = ''.parcel.Parcel''\<rparr>]\<rparr>]\<rparr>"

definition blobFile :: FileDescriptorProto where
  "blobFile =
     \<lparr>File_Name = ''blob.proto'', File_Package = ''blob'',
      File_EnumType = [],
      File_MessageType = [DescriptorProto ''Blob'' [scalarField ''payload'' TYPE_BYTES] [] []],
      File_Service = []\<rparr>"

definition draftFile :: FileDescriptorProto where
  "draftFile =
     \<lparr>File_Name = ''draft.proto'', File_Package = ''draft'',
      File_EnumType = [],
      File_MessageType = [DescriptorProto ''Draft'' [stringField ''foo_''] [] []],
      File_Service = []\<rparr>"

text \<open>
  A sample of the emission parameters: the text of a file is the two interfaces of each of
  its messages, the text of an index is one line for each file of its directory.
\<close>

definition sampleRenderer :: renderer where
  "sampleRenderer =
     \<lparr>twirpFileName = ''twirp.ts'',
      twirpSource = ''// twirp'',
      Compile_protoFile =
        (\<lambda>pf. Inr (concat (map (\<lambda>v. publicInterface v @ [CHR 0x0A] @ jsonInterface v @ [CHR 0x0A])
                               (Messages pf)))),
      Compile_exportValues =
        (\<lambda>ev. Inr (concat (map (\<lambda>e. ''export * from ./'' @ e @ [CHR 0x0A]) (Exports ev))))\<rparr>"


section \<open>Properties\<close>


subsection \<open>Splitting and package stripping\<close>

lemma Split_not_Nil: "Split s sep \<noteq> []"
  by (induction s) (auto split: list.splits)

lemma SplitN_3_not_Nil: "SplitN s sep 3 \<noteq> []"
  by (cases s) (auto simp: eval_nat_numeral split: list.splits)

lemma Split_no_sep: "sep \<notin> set s \<Longrightarrow> Split s sep = [s]"
  by (induction s) auto

lemma SplitN_no_sep: "sep \<notin> set s \<Longrightarrow> SplitN s sep (Suc (Suc n)) = [s]"
  by (induction s) auto

lemma SplitN_append_sep:
  "sep \<notin> set a \<Longrightarrow> SplitN (a @ sep # b) sep (Suc (Suc n)) = a # SplitN b sep (Suc n)"
  by (induction a) auto

text \<open>With a package of one segment, \<^verbatim>\<open>removePkg\<close> drops the package and joins what
  follows it with underscores.\<close>

lemma removePkg_one_segment:
  assumes "CHR ''.'' \<notin> set pkg"
  shows "removePkg (''.'' @ pkg @ ''.'' @ rest) = Join (Split rest CHR ''.'') ''_''"
proof -
  have "SplitN (''.'' @ pkg @ ''.'' @ rest) CHR ''.'' 3 = [[], pkg, rest]"
    using SplitN_append_sep [OF assms, of rest 0] by (simp add: eval_nat_numeral)
  then show ?thesis by (simp add: removePkg_def)
qed

lemma removePkg_local_name:
  assumes "CHR ''.'' \<notin> set pkg" and "CHR ''.'' \<notin> set name"
  shows "removePkg (''.'' @ pkg @ ''.'' @ name) = name"
  using removePkg_one_segment [OF assms(1), of name] Split_no_sep [OF assms(2)] by simp

lemma removePkg_no_dot:
  assumes "CHR ''.'' \<notin> set s"
  shows "removePkg s = s"
proof -
  have "SplitN s CHR ''.'' 3 = [s]"
    using SplitN_no_sep [OF assms, of 1] by (simp add: eval_nat_numeral)
  then show ?thesis using Split_no_sep [OF assms] by (simp add: removePkg_def)
qed

lemma TypeName_removePkg: "TypeName d fd n = removePkg n"
  by (simp add: TypeName_def split: sum.splits)


subsection \<open>The scalar cases of the Field Type Mapper\<close>

lemma singularFieldType_number:
  "Field_Type f \<in> {TYPE_DOUBLE, TYPE_FIXED32, TYPE_FIXED64, TYPE_INT32, TYPE_INT64,
                    TYPE_UINT32, TYPE_UINT64} \<Longrightarrow> singularFieldType m f = ''number''"
  by auto

lemma singularFieldType_string_bool:
  "Field_Type f = TYPE_STRING \<Longrightarrow> singularFieldType m f = ''string''"
  "Field_Type f = TYPE_BOOL \<Longrightarrow> singularFieldType m f = ''boolean''"
  by auto

text \<open>
  Claim C2.  The claim asks for the numeric output type on every floating-point and
  integer wire type.  The switch of \<^verbatim>\<open>singularFieldType\<close> lists seven of the twelve
  (double, fixed32, fixed64, int32, int64, uint32, uint64); float, sint32, sint64,
  sfixed32 and sfixed64 have no case and reach the default branch, which answers
  \<^verbatim>\<open>string\<close>.
\<close>

theorem singularFieldType_missed_numeric_types:
  "singularFieldType orderMessage (scalarField ''price'' TYPE_FLOAT) = ''string''
   \<and> singularFieldType orderMessage (scalarField ''delta'' TYPE_SINT32) = ''string''
   \<and> singularFieldType orderMessage (scalarField ''delta'' TYPE_SINT64) = ''string''
   \<and> singularFieldType orderMessage (scalarField ''offset'' TYPE_SFIXED32) = ''string''
   \<and> singularFieldType orderMessage (scalarField ''offset'' TYPE_SFIXED64) = ''string''"
  by (simp add: scalarField_def)

text \<open>
  Claim C3.  The claim asks for the local name of the referenced type whatever the
  number of segments of its package.  \<^verbatim>\<open>removePkg\<close> splits off the first segment only:
  for the type \<^verbatim>\<open>Item\<close> of package \<^verbatim>\<open>shop.v1\<close> it answers \<^verbatim>\<open>v1_Item\<close>, as the type of
  a message field and as the type of a method alike.
\<close>

theorem removePkg_keeps_package_segments:
  "removePkg ''.shop.v1.Item'' = ''v1_Item''
   \<and> singularFieldType cartMessage (messageField ''item'' ''.shop.v1.Item'' LABEL_OPTIONAL)
       = ''v1_Item''
   \<and> TypeName Map.empty cartFile (removePkg ''.shop.v1.Item'') = ''v1_Item''"
  by (simp add: removePkg_def messageField_def TypeName_def Resolve_def eval_nat_numeral)


subsection \<open>Camel case\<close>

lemma camelCaseParts_ok:
  "[] \<notin> set ps \<Longrightarrow> camelCaseParts (Suc i) ps = Inr (map (\<lambda>p. ToUpper1 (hd p) @ tl p) ps)"
  by (induction ps arbitrary: i) (auto split: list.splits sum.splits)

lemma camelCaseParts_panic:
  "[] \<in> set ps \<Longrightarrow> camelCaseParts (Suc i) ps = Inl SliceBoundsPanic"
proof (induction ps arbitrary: i)
  case Nil
  then show ?case by simp
next
  case (Cons p ps)
  show ?case
  proof (cases p)
    case Nil
    then show ?thesis by simp
  next
    case (Cons c cs)
    with Cons.prems have "[] \<in> set ps" by auto
    from Cons.IH [OF this] show ?thesis by (simp add: Cons)
  qed
qed

text \<open>\<^verbatim>\<open>camelCase\<close> panics exactly on the names with an empty segment after the first
  one: a trailing underscore, or two underscores in a row.\<close>

lemma camelCase_panic_iff:
  "camelCase s = Inl SliceBoundsPanic \<longleftrightarrow> [] \<in> set (tl (Split s CHR ''_''))"
proof -
  obtain p ps where sp: "Split s CHR ''_'' = p # ps"
    using Split_not_Nil by (cases "Split s CHR ''_''") auto
  show ?thesis
  proof (cases "[] \<in> set ps")
    case True
    then show ?thesis using camelCaseParts_panic [of ps 0] by (simp add: camelCase_def sp)
  next
    case False
    then show ?thesis using camelCaseParts_ok [of ps 0] by (simp add: camelCase_def sp)
  qed
qed

lemma camelCaseParts_error: "camelCaseParts i ps = Inl e \<Longrightarrow> e = SliceBoundsPanic"
  by (induction ps arbitrary: i) (auto split: if_splits sum.splits list.splits)

lemma camelCase_error: "camelCase s = Inl e \<Longrightarrow> e = SliceBoundsPanic"
  by (auto simp: camelCase_def split: sum.splits dest: camelCaseParts_error)

lemma methodName_nonempty: "s \<noteq> [] \<Longrightarrow> \<exists>r. methodName s = Inr r"
  by (cases s) (simp_all add: methodName_def)

text \<open>
  Claim C10.  The claim requires the error branch of \<^verbatim>\<open>camelCase\<close> to be out of reach
  on every legal field name.  It is reached: on the legal names \<^verbatim>\<open>foo_\<close> and \<^verbatim>\<open>a__b\<close>
  the slice \<^verbatim>\<open>p[0:1]\<close> of the empty segment is out of range, and a request with one
  such field makes the whole run end in the panic.
\<close>

theorem camelCase_panics_on_empty_segment:
  "camelCase ''foo_'' = Inl SliceBoundsPanic
   \<and> camelCase ''a__b'' = Inl SliceBoundsPanic
   \<and> generate sampleRenderer [''catalog'', ''draft'']
         \<lparr>ProtoFile = [catalogFile, draftFile]\<rparr>
       = Inl SliceBoundsPanic"
  by code_simp


subsection \<open>Imports recorded by a reference\<close>

lemma importKeys_Nil [simp]: "importKeys r file [] = []"
  by (simp add: importKeys_def List.map_filter_simps)

lemma importKeys_Cons:
  "importKeys r file (ref # refs) =
     (case r ref of
        None \<Rightarrow> []
      | Some fp \<Rightarrow> if sameFile fp file then [] else [tsFileName fp]) @ importKeys r file refs"
  by (simp add: importKeys_def List.map_filter_simps split: option.splits)

lemma importKeys_append [simp]:
  "importKeys r file (xs @ ys) = importKeys r file xs @ importKeys r file ys"
  by (induction xs) (simp_all add: importKeys_Cons)

lemma recordImport_frame [simp]:
  "Messages (recordImport r file ref tn pf) = Messages pf"
  "Enums (recordImport r file ref tn pf) = Enums pf"
  "Services (recordImport r file ref tn pf) = Services pf"
  "Output (recordImport r file ref tn pf) = Output pf"
  "RelativeImportBase (recordImport r file ref tn pf) = RelativeImportBase pf"
  by (simp_all add: recordImport_def AddImport_def Resolve_def split: option.splits)

lemma recordImport_dom:
  "dom (Imports (recordImport r file ref tn pf)) = dom (Imports pf) \<union> set (importKeys r file [ref])"
  by (auto simp: recordImport_def AddImport_def Resolve_def importKeys_Cons split: option.splits)

lemma recordImport_unresolved: "r ref = None \<Longrightarrow> recordImport r file ref tn pf = pf"
  by (simp add: recordImport_def Resolve_def)

subsection \<open>The loop over the fields\<close>

lemma addFields_frame:
  assumes "addFields r file m fs (pf, acc) = Inr (pf', acc')"
  shows "Messages pf' = Messages pf \<and> Enums pf' = Enums pf \<and> Services pf' = Services pf
         \<and> Output pf' = Output pf \<and> RelativeImportBase pf' = RelativeImportBase pf"
  using assms
  by (induction fs arbitrary: pf acc) (auto simp: Let_def split: sum.splits)

lemma addFields_dom:
  assumes "addFields r file m fs (pf, acc) = Inr (pf', acc')"
  shows "dom (Imports pf') = dom (Imports pf) \<union> set (importKeys r file (map Field_TypeName fs))"
  using assms
proof (induction fs arbitrary: pf acc)
  case Nil
  then show ?case by simp
next
  case (Cons f fs)
  from Cons.prems obtain cc where
    rest: "addFields r file m fs
             (recordImport r file (Field_TypeName f) (TypeName r file (singularFieldType m f)) pf,
              acc @ [\<lparr>fv_Name = Field_Name f, fv_Field = cc,
                       fv_Type = TypeName r file (singularFieldType m f),
                       fv_IsEnum = (Field_Type f = TYPE_ENUM),
                       fv_IsRepeated = isRepeated f\<rparr>]) = Inr (pf', acc')"
    by (auto simp: Let_def split: sum.splits)
  from Cons.IH [OF rest] show ?case
    by (auto simp: recordImport_dom importKeys_Cons)
qed

lemma addFields_models:
  assumes "addFields r file m fs (pf, acc) = Inr (pf', acc')"
  shows "map fv_Name acc' = map fv_Name acc @ map Field_Name fs
         \<and> map fv_Type acc' = map fv_Type acc @ map (\<lambda>f. removePkg (singularFieldType m f)) fs
         \<and> map fv_IsRepeated acc' = map fv_IsRepeated acc @ map isRepeated fs
         \<and> map fv_IsEnum acc' = map fv_IsEnum acc @ map (\<lambda>f. Field_Type f = TYPE_ENUM) fs
         \<and> map (\<lambda>v. Inr (fv_Field v)) acc' = map (\<lambda>v. Inr (fv_Field v)) acc @ map (\<lambda>f. camelCase (Field_Name f)) fs"
  using assms
  by (induction fs arbitrary: pf acc) (auto simp: Let_def TypeName_removePkg split: sum.splits)

lemma addFields_succeeds:
  assumes "\<forall>f \<in> set fs. camelCase (Field_Name f) \<noteq> Inl SliceBoundsPanic"
  shows "\<exists>res. addFields r file m fs (pf, acc) = Inr res"
  using assms
proof (induction fs arbitrary: pf acc)
  case Nil
  then show ?case by simp
next
  case (Cons f fs)
  then obtain cc where "camelCase (Field_Name f) = Inr cc"
    using camelCase_error by (cases "camelCase (Field_Name f)") auto
  with Cons show ?case by (simp add: Let_def)
qed

lemma addFields_error:
  "addFields r file m fs (pf, acc) = Inl e \<Longrightarrow> e = SliceBoundsPanic"
  by (induction fs arbitrary: pf acc) (auto simp: Let_def split: sum.splits dest: camelCase_error)

subsection \<open>The loop over the methods\<close>

lemma Join_no_dot: "\<forall>p \<in> set ps. CHR ''.'' \<notin> set p \<Longrightarrow> CHR ''.'' \<notin> set (Join ps ''_'')"
  by (induction ps "''_''" rule: Join.induct) auto

lemma Split_parts_no_sep: "\<forall>p \<in> set (Split s sep). sep \<notin> set p"
  by (induction s) (auto split: list.splits)

lemma removePkg_idem: "removePkg (removePkg s) = removePkg s"
  by (rule removePkg_no_dot) (simp add: removePkg_def Join_no_dot Split_parts_no_sep)


lemma addMethods_frame:
  assumes "addMethods r file ms (pf, acc) = (pf', acc')"
  shows "Messages pf' = Messages pf \<and> Enums pf' = Enums pf \<and> Services pf' = Services pf
         \<and> Output pf' = Output pf \<and> RelativeImportBase pf' = RelativeImportBase pf"
  using assms
  by (induction ms arbitrary: pf acc) (auto simp: Let_def)

lemma addMethods_dom:
  assumes "addMethods r file ms (pf, acc) = (pf', acc')"
  shows "dom (Imports pf') = dom (Imports pf)
           \<union> set (importKeys r file (concat (map (\<lambda>mt. [Method_InputType mt, Method_OutputType mt]) ms)))"
  using assms
proof (induction ms arbitrary: pf acc)
  case Nil
  then show ?case by simp
next
  case (Cons mt ms)
  from Cons.prems Cons.IH show ?case
    by (auto simp: Let_def recordImport_dom importKeys_Cons)
qed

lemma addMethods_models:
  assumes "addMethods r file ms (pf, acc) = (pf', acc')"
  shows "map smv_Name acc' = map smv_Name acc @ map Method_Name ms
         \<and> map smv_InputType acc' = map smv_InputType acc @ map (\<lambda>mt. removePkg (Method_InputType mt)) ms
         \<and> map smv_OutputType acc' = map smv_OutputType acc @ map (\<lambda>mt. removePkg (Method_OutputType mt)) ms"
  using assms
  by (induction ms arbitrary: pf acc) (auto simp: Let_def TypeName_removePkg removePkg_idem)

subsection \<open>Declarations\<close>

lemma setAll_append:
  "setAll r fd (xs @ ys) = (case setAll r fd xs of Inl e \<Rightarrow> Inl e | Inr r1 \<Rightarrow> setAll r1 fd ys)"
  by (induction xs arbitrary: r) (auto split: sum.splits)

lemma setAll_append_Inr:
  "setAll r fd (xs @ ys) = Inr r' \<longleftrightarrow> (\<exists>r1. setAll r fd xs = Inr r1 \<and> setAll r1 fd ys = Inr r')"
  by (simp add: setAll_append split: sum.splits)

lemma fullTypeName_inj: "fullTypeName fd a = fullTypeName fd b \<longleftrightarrow> a = b"
  by (simp add: fullTypeName_def)

lemma Set_resolver_Inr:
  "Set_resolver r fd n = Inr r' \<longleftrightarrow> r (fullTypeName fd n) = None \<and> r' = r(fullTypeName fd n \<mapsto> fd)"
  by (auto simp: Set_resolver_def split: option.splits)

lemma Set_resolver_error: "Set_resolver r fd n = Inl e \<Longrightarrow> e = DuplicateDeclaration"
  by (auto simp: Set_resolver_def split: option.splits)

lemma setAll_Inr:
  "setAll r fd ns = Inr r' \<longleftrightarrow>
     distinct ns \<and> (\<forall>n \<in> set ns. r (fullTypeName fd n) = None)
     \<and> r' = (\<lambda>k. if k \<in> fullTypeName fd ` set ns then Some fd else r k)"
proof (induction ns arbitrary: r)
  case Nil
  then show ?case by auto
next
  case (Cons n ns)
  show ?case
  proof (cases "r (fullTypeName fd n)")
    case (Some a)
    then show ?thesis by (simp add: Set_resolver_def)
  next
    case None
    have upd: "Set_resolver r fd n = Inr (r(fullTypeName fd n \<mapsto> fd))"
      using None by (simp add: Set_resolver_def)
    show ?thesis
      unfolding setAll.simps upd sum.case Cons.IH
      using None by (auto simp: fullTypeName_inj fun_eq_iff)
  qed
qed

lemma setAll_error: "setAll r fd ns = Inl e \<Longrightarrow> e = DuplicateDeclaration"
  by (induction ns arbitrary: r) (auto split: sum.splits dest: Set_resolver_error)

text \<open>Declarations of the current file do not change which other files its references
  resolve to.\<close>

lemma importKeys_setAll:
  assumes "setAll r fd ns = Inr r'"
  shows "importKeys r' fd refs = importKeys r fd refs"
proof -
  from assms have fresh: "\<forall>n \<in> set ns. r (fullTypeName fd n) = None"
    and r': "r' = (\<lambda>k. if k \<in> fullTypeName fd ` set ns then Some fd else r k)"
    by (simp_all add: setAll_Inr)
  show ?thesis
    by (induction refs) (auto simp: importKeys_Cons r' sameFile_def fresh split: option.splits)
qed

subsection \<open>The loops over the enums, messages and services of a file\<close>

lemma addEnums_eq:
  "addEnums fd es (r, pf) =
     (case setAll r fd (map Enum_Name es) of
        Inl e \<Rightarrow> Inl e
      | Inr r' \<Rightarrow>
          Inr (r', pf\<lparr>Enums := Enums pf
                 @ map (\<lambda>e. \<lparr>enum_Name = Enum_Name e, enum_Values = enumKeyVals e\<rparr>) es\<rparr>))"
  by (induction es arbitrary: r pf) (auto simp: Let_def split: sum.splits)

lemma addMessage_Inr:
  "addMessage fd m (r, pf, lg) = Inr (r', pf', lg') \<longleftrightarrow>
     (\<exists>pf1 fs.
        setAll r fd [Message_Name m, typeToInterface (Message_Name m),
                     typeToJSONInterface (Message_Name m)] = Inr r'
        \<and> addFields r' fd m (Message_Field m) (pf, []) = Inr (pf1, fs)
        \<and> pf' = pf1\<lparr>Messages := Messages pf1
                   @ [messageValues (Message_Name m) (typeToInterface (Message_Name m))
                        (typeToJSONInterface (Message_Name m)) fs [] (nestedEnums m)]\<rparr>
        \<and> lg' = (if Message_NestedType m \<noteq> [] then lg @ [nestedWarning] else lg))"
  by (auto simp: addMessage_def Let_def split: sum.splits)

lemma addMessage_facts:
  assumes "addMessage fd m (r, pf, lg) = Inr (r', pf', lg')"
  shows "setAll r fd [Message_Name m, typeToInterface (Message_Name m),
                      typeToJSONInterface (Message_Name m)] = Inr r'"
    and "lg' = lg @ map (\<lambda>m. nestedWarning) (filter (\<lambda>m. Message_NestedType m \<noteq> []) [m])"
    and "Enums pf' = Enums pf" "Services pf' = Services pf" "Output pf' = Output pf"
    and "RelativeImportBase pf' = RelativeImportBase pf"
    and "dom (Imports pf') = dom (Imports pf) \<union> set (importKeys r fd (map Field_TypeName (Message_Field m)))"
    and "\<exists>v. Messages pf' = Messages pf @ [v] \<and> mv_Name v = Message_Name m
           \<and> mv_Interface v = typeToInterface (Message_Name m)
           \<and> mv_JSONInterface v = typeToJSONInterface (Message_Name m)
           \<and> mv_NestedEnums v = nestedEnums m \<and> mv_NestedTypes v = []
           \<and> map fv_Name (mv_Fields v) = map Field_Name (Message_Field m)
           \<and> map fv_Type (mv_Fields v) = map (\<lambda>f. removePkg (singularFieldType m f)) (Message_Field m)
           \<and> map fv_IsRepeated (mv_Fields v) = map isRepeated (Message_Field m)
           \<and> map (\<lambda>x. Inr (fv_Field x)) (mv_Fields v) = map (\<lambda>f. camelCase (Field_Name f)) (Message_Field m)"
proof -
  from assms obtain pf1 fs where
    a: "setAll r fd [Message_Name m, typeToInterface (Message_Name m),
                     typeToJSONInterface (Message_Name m)] = Inr r'"
    and b: "addFields r' fd m (Message_Field m) (pf, []) = Inr (pf1, fs)"
    and c: "pf' = pf1\<lparr>Messages := Messages pf1
                   @ [messageValues (Message_Name m) (typeToInterface (Message_Name m))
                        (typeToJSONInterface (Message_Name m)) fs [] (nestedEnums m)]\<rparr>"
    and d: "lg' = (if Message_NestedType m \<noteq> [] then lg @ [nestedWarning] else lg)"
    unfolding addMessage_Inr by blast
  note fr = addFields_frame [OF b]
  show "setAll r fd [Message_Name m, typeToInterface (Message_Name m),
                      typeToJSONInterface (Message_Name m)] = Inr r'" by (rule a)
  show "lg' = lg @ map (\<lambda>m. nestedWarning) (filter (\<lambda>m. Message_NestedType m \<noteq> []) [m])"
    using d by simp
  show "Enums pf' = Enums pf" "Services pf' = Services pf" "Output pf' = Output pf"
    "RelativeImportBase pf' = RelativeImportBase pf"
    using fr by (simp_all add: c)
  show "dom (Imports pf') = dom (Imports pf) \<union> set (importKeys r fd (map Field_TypeName (Message_Field m)))"
    using addFields_dom [OF b] by (simp add: c importKeys_setAll [OF a])
  show "\<exists>v. Messages pf' = Messages pf @ [v] \<and> mv_Name v = Message_Name m
           \<and> mv_Interface v = typeToInterface (Message_Name m)
           \<and> mv_JSONInterface v = typeToJSONInterface (Message_Name m)
           \<and> mv_NestedEnums v = nestedEnums m \<and> mv_NestedTypes v = []
           \<and> map fv_Name (mv_Fields v) = map Field_Name (Message_Field m)
           \<and> map fv_Type (mv_Fields v) = map (\<lambda>f. removePkg (singularFieldType m f)) (Message_Field m)
           \<and> map fv_IsRepeated (mv_Fields v) = map isRepeated (Message_Field m)
           \<and> map (\<lambda>x. Inr (fv_Field x)) (mv_Fields v) = map (\<lambda>f. camelCase (Field_Name f)) (Message_Field m)"
    using fr addFields_models [OF b] by (simp add: c)
qed

lemma addMessages_Cons_Inr:
  "addMessages fd (m # ms) (r, pf, lg) = Inr res \<longleftrightarrow>
     (\<exists>r1 pf1 lg1. addMessage fd m (r, pf, lg) = Inr (r1, pf1, lg1)
        \<and> addMessages fd ms (r1, pf1, lg1) = Inr res)"
  by (auto split: sum.splits)

lemma addMessages_registry:
  assumes "addMessages fd ms (r, pf, lg) = Inr (r', pf', lg')"
  shows "setAll r fd (concat (map (\<lambda>m. [Message_Name m, typeToInterface (Message_Name m),
                            typeToJSONInterface (Message_Name m)]) ms)) = Inr r'"
  using assms
proof (induction ms arbitrary: r pf lg)
  case Nil
  then show ?case by simp
next
  case (Cons m ms)
  from Cons.prems obtain r1 pf1 lg1 where
    s: "addMessage fd m (r, pf, lg) = Inr (r1, pf1, lg1)"
    and t: "addMessages fd ms (r1, pf1, lg1) = Inr (r', pf', lg')"
    unfolding addMessages_Cons_Inr by blast
  have "setAll r fd ([Message_Name m, typeToInterface (Message_Name m),
                      typeToJSONInterface (Message_Name m)]
          @ concat (map (\<lambda>m. [Message_Name m, typeToInterface (Message_Name m),
                            typeToJSONInterface (Message_Name m)]) ms)) = Inr r'"
    unfolding setAll_append_Inr using addMessage_facts(1) [OF s] Cons.IH [OF t] by blast
  then show ?case by simp
qed

lemma addMessages_log:
  assumes "addMessages fd ms (r, pf, lg) = Inr (r', pf', lg')"
  shows "lg' = lg @ map (\<lambda>m. nestedWarning) (filter (\<lambda>m. Message_NestedType m \<noteq> []) ms)"
  using assms
proof (induction ms arbitrary: r pf lg)
  case Nil
  then show ?case by simp
next
  case (Cons m ms)
  from Cons.prems obtain r1 pf1 lg1 where
    s: "addMessage fd m (r, pf, lg) = Inr (r1, pf1, lg1)"
    and t: "addMessages fd ms (r1, pf1, lg1) = Inr (r', pf', lg')"
    unfolding addMessages_Cons_Inr by blast
  show ?case using addMessage_facts(2) [OF s] Cons.IH [OF t] by simp
qed

lemma addMessages_frame:
  assumes "addMessages fd ms (r, pf, lg) = Inr (r', pf', lg')"
  shows "Enums pf' = Enums pf \<and> Services pf' = Services pf
         \<and> Output pf' = Output pf \<and> RelativeImportBase pf' = RelativeImportBase pf"
  using assms
proof (induction ms arbitrary: r pf lg)
  case Nil
  then show ?case by simp
next
  case (Cons m ms)
  from Cons.prems obtain r1 pf1 lg1 where
    s: "addMessage fd m (r, pf, lg) = Inr (r1, pf1, lg1)"
    and t: "addMessages fd ms (r1, pf1, lg1) = Inr (r', pf', lg')"
    unfolding addMessages_Cons_Inr by blast
  show ?case using addMessage_facts(3-6) [OF s] Cons.IH [OF t] by simp
qed

lemma addMessages_dom:
  assumes "addMessages fd ms (r, pf, lg) = Inr (r', pf', lg')"
  shows "dom (Imports pf') = dom (Imports pf)
           \<union> set (importKeys r fd (concat (map (\<lambda>m. map Field_TypeName (Message_Field m)) ms)))"
  using assms
proof (induction ms arbitrary: r pf lg)
  case Nil
  then show ?case by simp
next
  case (Cons m ms)
  from Cons.prems obtain r1 pf1 lg1 where
    s: "addMessage fd m (r, pf, lg) = Inr (r1, pf1, lg1)"
    and t: "addMessages fd ms (r1, pf1, lg1) = Inr (r', pf', lg')"
    unfolding addMessages_Cons_Inr by blast
  have "importKeys r1 fd (concat (map (\<lambda>m. map Field_TypeName (Message_Field m)) ms))
        = importKeys r fd (concat (map (\<lambda>m. map Field_TypeName (Message_Field m)) ms))"
    by (rule importKeys_setAll [OF addMessage_facts(1) [OF s]])
  then show ?case using addMessage_facts(7) [OF s] Cons.IH [OF t] by (simp add: Un_assoc)
qed

lemma addMessages_models:
  assumes "addMessages fd ms (r, pf, lg) = Inr (r', pf', lg')"
  shows "map mv_Name (Messages pf') = map mv_Name (Messages pf) @ map Message_Name ms
       \<and> map mv_Interface (Messages pf') = map mv_Interface (Messages pf) @ map (\<lambda>m. typeToInterface (Message_Name m)) ms
       \<and> map mv_JSONInterface (Messages pf') = map mv_JSONInterface (Messages pf) @ map (\<lambda>m. typeToJSONInterface (Message_Name m)) ms
       \<and> map mv_NestedEnums (Messages pf') = map mv_NestedEnums (Messages pf) @ map nestedEnums ms
       \<and> map mv_NestedTypes (Messages pf') = map mv_NestedTypes (Messages pf) @ map (\<lambda>m. []) ms
       \<and> map (\<lambda>v. map fv_Name (mv_Fields v)) (Messages pf')
           = map (\<lambda>v. map fv_Name (mv_Fields v)) (Messages pf) @ map (\<lambda>m. map Field_Name (Message_Field m)) ms
       \<and> map (\<lambda>v. map fv_Type (mv_Fields v)) (Messages pf')
           = map (\<lambda>v. map fv_Type (mv_Fields v)) (Messages pf)
             @ map (\<lambda>m. map (\<lambda>f. removePkg (singularFieldType m f)) (Message_Field m)) ms
       \<and> map (\<lambda>v. map fv_IsRepeated (mv_Fields v)) (Messages pf')
           = map (\<lambda>v. map fv_IsRepeated (mv_Fields v)) (Messages pf)
             @ map (\<lambda>m. map isRepeated (Message_Field m)) ms"
  using assms
proof (induction ms arbitrary: r pf lg)
  case Nil
  then show ?case by simp
next
  case (Cons m ms)
  from Cons.prems obtain r1 pf1 lg1 where
    s: "addMessage fd m (r, pf, lg) = Inr (r1, pf1, lg1)"
    and t: "addMessages fd ms (r1, pf1, lg1) = Inr (r', pf', lg')"
    unfolding addMessages_Cons_Inr by blast
  from addMessage_facts(8) [OF s] obtain v where v: "Messages pf1 = Messages pf @ [v]"
     "mv_Name v = Message_Name m" "mv_Interface v = typeToInterface (Message_Name m)"
     "mv_JSONInterface v = typeToJSONInterface (Message_Name m)"
     "mv_NestedEnums v = nestedEnums m" "mv_NestedTypes v = []"
     "map fv_Name (mv_Fields v) = map Field_Name (Message_Field m)"
     "map fv_Type (mv_Fields v) = map (\<lambda>f. removePkg (singularFieldType m f)) (Message_Field m)"
     "map fv_IsRepeated (mv_Fields v) = map isRepeated (Message_Field m)"
    by blast
  show ?case using Cons.IH [OF t] by (simp add: v)
qed

lemma addMessages_succeeds:
  assumes "setAll r fd (concat (map (\<lambda>m. [Message_Name m, typeToInterface (Message_Name m),
                            typeToJSONInterface (Message_Name m)]) ms)) = Inr r'"
      and "\<forall>m \<in> set ms. \<forall>f \<in> set (Message_Field m). camelCase (Field_Name f) \<noteq> Inl SliceBoundsPanic"
  shows "\<exists>pf' lg'. addMessages fd ms (r, pf, lg) = Inr (r', pf', lg')"
  using assms
proof (induction ms arbitrary: r pf lg)
  case Nil
  then show ?case by simp
next
  case (Cons m ms)
  from Cons.prems(1) have "setAll r fd ([Message_Name m, typeToInterface (Message_Name m),
                      typeToJSONInterface (Message_Name m)]
          @ concat (map (\<lambda>m. [Message_Name m, typeToInterface (Message_Name m),
                            typeToJSONInterface (Message_Name m)]) ms)) = Inr r'" by simp
  then obtain r3 where
    a: "setAll r fd [Message_Name m, typeToInterface (Message_Name m),
                  typeToJSONInterface (Message_Name m)] = Inr r3"
    and rest: "setAll r3 fd (concat (map (\<lambda>m. [Message_Name m, typeToInterface (Message_Name m),
                            typeToJSONInterface (Message_Name m)]) ms)) = Inr r'"
    unfolding setAll_append_Inr by blast
  from Cons.prems(2) obtain pf1 fs where
    b: "addFields r3 fd m (Message_Field m) (pf, []) = Inr (pf1, fs)"
    using addFields_succeeds [of "Message_Field m" r3 fd m pf "[]"] by auto
  from a b obtain pf2 lg2 where s: "addMessage fd m (r, pf, lg) = Inr (r3, pf2, lg2)"
    unfolding addMessage_Inr by blast
  from Cons.prems(2) have names: "\<forall>m \<in> set ms. \<forall>f \<in> set (Message_Field m). camelCase (Field_Name f) \<noteq> Inl SliceBoundsPanic"
    by simp
  from Cons.IH [OF rest names, of pf2 lg2] s show ?case
    by (auto simp: addMessages_Cons_Inr)
qed

lemma addService_Inr:
  "addService fd s (r, pf) = Inr (r', pf') \<longleftrightarrow>
     (\<exists>pf1 ms.
        setAll r fd [Service_Name s] = Inr r'
        \<and> addMethods r' fd (Service_Method s) (pf, []) = (pf1, ms)
        \<and> pf' = pf1\<lparr>Services := Services pf1
                   @ [\<lparr>sv_Package = File_Package fd, sv_Name = Service_Name s,
                        sv_Interface = typeToInterface (Service_Name s), sv_Methods = ms\<rparr>]\<rparr>)"
  by (auto simp: addService_def Let_def split: sum.splits prod.splits)

lemma addService_facts:
  assumes "addService fd s (r, pf) = Inr (r', pf')"
  shows "setAll r fd [Service_Name s] = Inr r'"
    and "Enums pf' = Enums pf" "Messages pf' = Messages pf" "Output pf' = Output pf"
    and "RelativeImportBase pf' = RelativeImportBase pf"
    and "dom (Imports pf') = dom (Imports pf)
           \<union> set (importKeys r fd (concat (map (\<lambda>mt. [Method_InputType mt, Method_OutputType mt])
                                              (Service_Method s))))"
    and "\<exists>v. Services pf' = Services pf @ [v] \<and> sv_Name v = Service_Name s
           \<and> sv_Package v = File_Package fd
           \<and> sv_Interface v = typeToInterface (Service_Name s)
           \<and> map smv_Name (sv_Methods v) = map Method_Name (Service_Method s)
           \<and> map smv_InputType (sv_Methods v) = map (\<lambda>mt. removePkg (Method_InputType mt)) (Service_Method s)
           \<and> map smv_OutputType (sv_Methods v) = map (\<lambda>mt. removePkg (Method_OutputType mt)) (Service_Method s)"
proof -
  from assms obtain pf1 ms where
    a: "setAll r fd [Service_Name s] = Inr r'"
    and b: "addMethods r' fd (Service_Method s) (pf, []) = (pf1, ms)"
    and c: "pf' = pf1\<lparr>Services := Services pf1
                   @ [\<lparr>sv_Package = File_Package fd, sv_Name = Service_Name s,
                        sv_Interface = typeToInterface (Service_Name s), sv_Methods = ms\<rparr>]\<rparr>"
    unfolding addService_Inr by blast
  note fr = addMethods_frame [OF b]
  show "setAll r fd [Service_Name s] = Inr r'" by (rule a)
  show "Enums pf' = Enums pf" "Messages pf' = Messages pf" "Output pf' = Output pf"
    "RelativeImportBase pf' = RelativeImportBase pf"
    using fr by (simp_all add: c)
  show "dom (Imports pf') = dom (Imports pf)
           \<union> set (importKeys r fd (concat (map (\<lambda>mt. [Method_InputType mt, Method_OutputType mt])
                                              (Service_Method s))))"
    using addMethods_dom [OF b] by (simp add: c importKeys_setAll [OF a])
  show "\<exists>v. Services pf' = Services pf @ [v] \<and> sv_Name v = Service_Name s
           \<and> sv_Package v = File_Package fd
           \<and> sv_Interface v = typeToInterface (Service_Name s)
           \<and> map smv_Name (sv_Methods v) = map Method_Name (Service_Method s)
           \<and> map smv_InputType (sv_Methods v) = map (\<lambda>mt. removePkg (Method_InputType mt)) (Service_Method s)
           \<and> map smv_OutputType (sv_Methods v) = map (\<lambda>mt. removePkg (Method_OutputType mt)) (Service_Method s)"
    using fr addMethods_models [OF b] by (simp add: c)
qed

lemma addServices_Cons_Inr:
  "addServices fd (s # ss) (r, pf) = Inr res \<longleftrightarrow>
     (\<exists>r1 pf1. addService fd s (r, pf) = Inr (r1, pf1) \<and> addServices fd ss (r1, pf1) = Inr res)"
  by (auto split: sum.splits)

lemma addServices_registry:
  assumes "addServices fd ss (r, pf) = Inr (r', pf')"
  shows "setAll r fd (map Service_Name ss) = Inr r'"
  using assms
proof (induction ss arbitrary: r pf)
  case Nil
  then show ?case by simp
next
  case (Cons s ss)
  from Cons.prems obtain r1 pf1 where
    s: "addService fd s (r, pf) = Inr (r1, pf1)"
    and t: "addServices fd ss (r1, pf1) = Inr (r', pf')"
    unfolding addServices_Cons_Inr by blast
  have "setAll r fd ([Service_Name s] @ map Service_Name ss) = Inr r'"
    unfolding setAll_append_Inr using addService_facts(1) [OF s] Cons.IH [OF t] by blast
  then show ?case by simp
qed

lemma addServices_frame:
  assumes "addServices fd ss (r, pf) = Inr (r', pf')"
  shows "Enums pf' = Enums pf \<and> Messages pf' = Messages pf
         \<and> Output pf' = Output pf \<and> RelativeImportBase pf' = RelativeImportBase pf"
  using assms
proof (induction ss arbitrary: r pf)
  case Nil
  then show ?case by simp
next
  case (Cons s ss)
  from Cons.prems obtain r1 pf1 where
    s: "addService fd s (r, pf) = Inr (r1, pf1)"
    and t: "addServices fd ss (r1, pf1) = Inr (r', pf')"
    unfolding addServices_Cons_Inr by blast
  show ?case using addService_facts(2-5) [OF s] Cons.IH [OF t] by simp
qed

lemma addServices_dom:
  assumes "addServices fd ss (r, pf) = Inr (r', pf')"
  shows "dom (Imports pf') = dom (Imports pf)
           \<union> set (importKeys r fd
                (concat (map (\<lambda>s. concat (map (\<lambda>mt. [Method_InputType mt, Method_OutputType mt])
                                             (Service_Method s))) ss)))"
  using assms
proof (induction ss arbitrary: r pf)
  case Nil
  then show ?case by simp
next
  case (Cons s ss)
  from Cons.prems obtain r1 pf1 where
    s: "addService fd s (r, pf) = Inr (r1, pf1)"
    and t: "addServices fd ss (r1, pf1) = Inr (r', pf')"
    unfolding addServices_Cons_Inr by blast
  have "importKeys r1 fd (concat (map (\<lambda>s. concat (map (\<lambda>mt. [Method_InputType mt, Method_OutputType mt])
                                             (Service_Method s))) ss))
        = importKeys r fd (concat (map (\<lambda>s. concat (map (\<lambda>mt. [Method_InputType mt, Method_OutputType mt])
                                             (Service_Method s))) ss))"
    by (rule importKeys_setAll [OF addService_facts(1) [OF s]])
  then show ?case using addService_facts(6) [OF s] Cons.IH [OF t] by (simp add: Un_assoc)
qed

lemma addServices_models:
  assumes "addServices fd ss (r, pf) = Inr (r', pf')"
  shows "map sv_Name (Services pf') = map sv_Name (Services pf) @ map Service_Name ss
       \<and> map (\<lambda>v. map smv_Name (sv_Methods v)) (Services pf')
           = map (\<lambda>v. map smv_Name (sv_Methods v)) (Services pf)
             @ map (\<lambda>s. map Method_Name (Service_Method s)) ss
       \<and> map (\<lambda>v. map smv_InputType (sv_Methods v)) (Services pf')
           = map (\<lambda>v. map smv_InputType (sv_Methods v)) (Services pf)
             @ map (\<lambda>s. map (\<lambda>mt. removePkg (Method_InputType mt)) (Service_Method s)) ss
       \<and> map (\<lambda>v. map smv_OutputType (sv_Methods v)) (Services pf')
           = map (\<lambda>v. map smv_OutputType (sv_Methods v)) (Services pf)
             @ map (\<lambda>s. map (\<lambda>mt. removePkg (Method_OutputType mt)) (Service_Method s)) ss"
  using assms
proof (induction ss arbitrary: r pf)
  case Nil
  then show ?case by simp
next
  case (Cons s ss)
  from Cons.prems obtain r1 pf1 where
    s: "addService fd s (r, pf) = Inr (r1, pf1)"
    and t: "addServices fd ss (r1, pf1) = Inr (r', pf')"
    unfolding addServices_Cons_Inr by blast
  from addService_facts(7) [OF s] obtain v where v: "Services pf1 = Services pf @ [v]"
    "sv_Name v = Service_Name s"
    "map smv_Name (sv_Methods v) = map Method_Name (Service_Method s)"
    "map smv_InputType (sv_Methods v) = map (\<lambda>mt. removePkg (Method_InputType mt)) (Service_Method s)"
    "map smv_OutputType (sv_Methods v) = map (\<lambda>mt. removePkg (Method_OutputType mt)) (Service_Method s)"
    by blast
  show ?case using Cons.IH [OF t] by (simp add: v)
qed

lemma addServices_succeeds:
  assumes "setAll r fd (map Service_Name ss) = Inr r'"
  shows "\<exists>pf'. addServices fd ss (r, pf) = Inr (r', pf')"
  using assms
proof (induction ss arbitrary: r pf)
  case Nil
  then show ?case by simp
next
  case (Cons s ss)
  from Cons.prems have "setAll r fd ([Service_Name s] @ map Service_Name ss) = Inr r'" by simp
  then obtain r1 where a: "setAll r fd [Service_Name s] = Inr r1"
    and rest: "setAll r1 fd (map Service_Name ss) = Inr r'"
    unfolding setAll_append_Inr by blast
  obtain pf1 ms where b: "addMethods r1 fd (Service_Method s) (pf, []) = (pf1, ms)"
    by (cases "addMethods r1 fd (Service_Method s) (pf, [])") auto
  from a b obtain pf2 where s: "addService fd s (r, pf) = Inr (r1, pf2)"
    unfolding addService_Inr by blast
  from Cons.IH [OF rest, of pf2] s show ?case
    by (auto simp: addServices_Cons_Inr)
qed

subsection \<open>The model of one file\<close>

lemma buildFile_Inr:
  "buildFile fd (r, lg) = Inr (r', pf, lg') \<longleftrightarrow>
     (\<exists>r1 r2 pf2.
        setAll r fd (map Enum_Name (File_EnumType fd)) = Inr r1
        \<and> addMessages fd (File_MessageType fd)
             (r1, (newProtoFile fd)\<lparr>Enums := map (\<lambda>e. \<lparr>enum_Name = Enum_Name e, enum_Values = enumKeyVals e\<rparr>)
                                            (File_EnumType fd)\<rparr>, lg) = Inr (r2, pf2, lg')
        \<and> addServices fd (File_Service fd) (r2, pf2) = Inr (r', pf))"
  by (auto simp: buildFile_def addEnums_eq Let_def newProtoFile_def split: sum.splits)

lemma buildFile_parts:
  assumes "buildFile fd (r, lg) = Inr (r', pf, lg')"
  obtains r1 r2 pf2 where
    "setAll r fd (map Enum_Name (File_EnumType fd)) = Inr r1"
    "addMessages fd (File_MessageType fd)
       (r1, (newProtoFile fd)\<lparr>Enums := map (\<lambda>e. \<lparr>enum_Name = Enum_Name e, enum_Values = enumKeyVals e\<rparr>)
                                      (File_EnumType fd)\<rparr>, lg) = Inr (r2, pf2, lg')"
    "addServices fd (File_Service fd) (r2, pf2) = Inr (r', pf)"
  using assms unfolding buildFile_Inr by blast

lemma buildFile_registry:
  assumes "buildFile fd (r, lg) = Inr (r', pf, lg')"
  shows "setAll r fd (declaredNames fd) = Inr r'"
proof -
  from assms obtain r1 r2 pf2 where
    e: "setAll r fd (map Enum_Name (File_EnumType fd)) = Inr r1"
    and m: "addMessages fd (File_MessageType fd)
       (r1, (newProtoFile fd)\<lparr>Enums := map (\<lambda>e. \<lparr>enum_Name = Enum_Name e, enum_Values = enumKeyVals e\<rparr>)
                                      (File_EnumType fd)\<rparr>, lg) = Inr (r2, pf2, lg')"
    and s: "addServices fd (File_Service fd) (r2, pf2) = Inr (r', pf)"
    by (rule buildFile_parts)
  show ?thesis
    unfolding declaredNames_def setAll_append_Inr
    using e addMessages_registry [OF m] addServices_registry [OF s] by blast
qed

lemma buildFile_log:
  assumes "buildFile fd (r, lg) = Inr (r', pf, lg')"
  shows "lg' = lg @ map (\<lambda>m. nestedWarning)
                      (filter (\<lambda>m. Message_NestedType m \<noteq> []) (File_MessageType fd))"
  using assms by (elim buildFile_parts) (rule addMessages_log)

lemma buildFile_Enums:
  assumes "buildFile fd (r, lg) = Inr (r', pf, lg')"
  shows "Enums pf = map (\<lambda>e. \<lparr>enum_Name = Enum_Name e, enum_Values = enumKeyVals e\<rparr>)
                      (File_EnumType fd)"
    and "Output pf = tsFileName fd"
    and "RelativeImportBase pf = relativeImportBase fd"
proof -
  from assms obtain r1 r2 pf2 where
    m: "addMessages fd (File_MessageType fd)
       (r1, (newProtoFile fd)\<lparr>Enums := map (\<lambda>e. \<lparr>enum_Name = Enum_Name e, enum_Values = enumKeyVals e\<rparr>)
                                      (File_EnumType fd)\<rparr>, lg) = Inr (r2, pf2, lg')"
    and s: "addServices fd (File_Service fd) (r2, pf2) = Inr (r', pf)"
    by (rule buildFile_parts)
  show "Enums pf = map (\<lambda>e. \<lparr>enum_Name = Enum_Name e, enum_Values = enumKeyVals e\<rparr>)
                      (File_EnumType fd)"
    and "Output pf = tsFileName fd"
    and "RelativeImportBase pf = relativeImportBase fd"
    using addMessages_frame [OF m] addServices_frame [OF s] by (simp_all add: newProtoFile_def)
qed

lemma buildFile_Messages:
  assumes "buildFile fd (r, lg) = Inr (r', pf, lg')"
  shows "map mv_Name (Messages pf) = map Message_Name (File_MessageType fd)"
    and "map mv_Interface (Messages pf) = map (\<lambda>m. typeToInterface (Message_Name m)) (File_MessageType fd)"
    and "map mv_JSONInterface (Messages pf) = map (\<lambda>m. typeToJSONInterface (Message_Name m)) (File_MessageType fd)"
    and "map mv_NestedEnums (Messages pf) = map nestedEnums (File_MessageType fd)"
    and "map mv_NestedTypes (Messages pf) = map (\<lambda>m. []) (File_MessageType fd)"
    and "map (\<lambda>v. map fv_Name (mv_Fields v)) (Messages pf)
           = map (\<lambda>m. map Field_Name (Message_Field m)) (File_MessageType fd)"
    and "map (\<lambda>v. map fv_Type (mv_Fields v)) (Messages pf)
           = map (\<lambda>m. map (\<lambda>f. removePkg (singularFieldType m f)) (Message_Field m)) (File_MessageType fd)"
    and "map (\<lambda>v. map fv_IsRepeated (mv_Fields v)) (Messages pf)
           = map (\<lambda>m. map isRepeated (Message_Field m)) (File_MessageType fd)"
proof -
  from assms obtain r1 r2 pf2 where
    m: "addMessages fd (File_MessageType fd)
       (r1, (newProtoFile fd)\<lparr>Enums := map (\<lambda>e. \<lparr>enum_Name = Enum_Name e, enum_Values = enumKeyVals e\<rparr>)
                                      (File_EnumType fd)\<rparr>, lg) = Inr (r2, pf2, lg')"
    and s: "addServices fd (File_Service fd) (r2, pf2) = Inr (r', pf)"
    by (rule buildFile_parts)
  have eq: "Messages pf = Messages pf2" using addServices_frame [OF s] by simp
  show "map mv_Name (Messages pf) = map Message_Name (File_MessageType fd)"
    and "map mv_Interface (Messages pf) = map (\<lambda>m. typeToInterface (Message_Name m)) (File_MessageType fd)"
    and "map mv_JSONInterface (Messages pf) = map (\<lambda>m. typeToJSONInterface (Message_Name m)) (File_MessageType fd)"
    and "map mv_NestedEnums (Messages pf) = map nestedEnums (File_MessageType fd)"
    and "map mv_NestedTypes (Messages pf) = map (\<lambda>m. []) (File_MessageType fd)"
    and "map (\<lambda>v. map fv_Name (mv_Fields v)) (Messages pf)
           = map (\<lambda>m. map Field_Name (Message_Field m)) (File_MessageType fd)"
    and "map (\<lambda>v. map fv_Type (mv_Fields v)) (Messages pf)
           = map (\<lambda>m. map (\<lambda>f. removePkg (singularFieldType m f)) (Message_Field m)) (File_MessageType fd)"
    and "map (\<lambda>v. map fv_IsRepeated (mv_Fields v)) (Messages pf)
           = map (\<lambda>m. map isRepeated (Message_Field m)) (File_MessageType fd)"
    using addMessages_models [OF m] by (simp_all add: eq newProtoFile_def)
qed

lemma buildFile_Services:
  assumes "buildFile fd (r, lg) = Inr (r', pf, lg')"
  shows "map sv_Name (Services pf) = map Service_Name (File_Service fd)"
    and "map (\<lambda>v. map smv_Name (sv_Methods v)) (Services pf)
           = map (\<lambda>s. map Method_Name (Service_Method s)) (File_Service fd)"
    and "map (\<lambda>v. map smv_InputType (sv_Methods v)) (Services pf)
           = map (\<lambda>s. map (\<lambda>mt. removePkg (Method_InputType mt)) (Service_Method s)) (File_Service fd)"
    and "map (\<lambda>v. map smv_OutputType (sv_Methods v)) (Services pf)
           = map (\<lambda>s. map (\<lambda>mt. removePkg (Method_OutputType mt)) (Service_Method s)) (File_Service fd)"
proof -
  from assms obtain r1 r2 pf2 where
    m: "addMessages fd (File_MessageType fd)
       (r1, (newProtoFile fd)\<lparr>Enums := map (\<lambda>e. \<lparr>enum_Name = Enum_Name e, enum_Values = enumKeyVals e\<rparr>)
                                      (File_EnumType fd)\<rparr>, lg) = Inr (r2, pf2, lg')"
    and s: "addServices fd (File_Service fd) (r2, pf2) = Inr (r', pf)"
    by (rule buildFile_parts)
  have eq: "Services pf2 = []" using addMessages_frame [OF m] by (simp add: newProtoFile_def)
  show "map sv_Name (Services pf) = map Service_Name (File_Service fd)"
    and "map (\<lambda>v. map smv_Name (sv_Methods v)) (Services pf)
           = map (\<lambda>s. map Method_Name (Service_Method s)) (File_Service fd)"
    and "map (\<lambda>v. map smv_InputType (sv_Methods v)) (Services pf)
           = map (\<lambda>s. map (\<lambda>mt. removePkg (Method_InputType mt)) (Service_Method s)) (File_Service fd)"
    and "map (\<lambda>v. map smv_OutputType (sv_Methods v)) (Services pf)
           = map (\<lambda>s. map (\<lambda>mt. removePkg (Method_OutputType mt)) (Service_Method s)) (File_Service fd)"
    using addServices_models [OF s] by (simp_all add: eq)
qed

lemma buildFile_dom:
  assumes "buildFile fd (r, lg) = Inr (r', pf, lg')"
  shows "dom (Imports pf) = set (importKeys r fd (fileRefs fd))"
proof -
  from assms obtain r1 r2 pf2 where
    e: "setAll r fd (map Enum_Name (File_EnumType fd)) = Inr r1"
    and m: "addMessages fd (File_MessageType fd)
       (r1, (newProtoFile fd)\<lparr>Enums := map (\<lambda>e. \<lparr>enum_Name = Enum_Name e, enum_Values = enumKeyVals e\<rparr>)
                                      (File_EnumType fd)\<rparr>, lg) = Inr (r2, pf2, lg')"
    and s: "addServices fd (File_Service fd) (r2, pf2) = Inr (r', pf)"
    by (rule buildFile_parts)
  have r2: "setAll r fd (map Enum_Name (File_EnumType fd)
              @ concat (map (\<lambda>m. [Message_Name m, typeToInterface (Message_Name m),
                            typeToJSONInterface (Message_Name m)]) (File_MessageType fd))) = Inr r2"
    unfolding setAll_append_Inr using e addMessages_registry [OF m] by blast
  show ?thesis
    using addMessages_dom [OF m] addServices_dom [OF s]
    by (simp add: fileRefs_def importKeys_setAll [OF e] importKeys_setAll [OF r2] newProtoFile_def)
qed

lemma buildFile_succeeds:
  assumes "setAll r fd (declaredNames fd) = Inr r'"
      and "\<forall>m \<in> set (File_MessageType fd). \<forall>f \<in> set (Message_Field m).
             camelCase (Field_Name f) \<noteq> Inl SliceBoundsPanic"
  shows "\<exists>pf lg'. buildFile fd (r, lg) = Inr (r', pf, lg')"
proof -
  from assms(1) obtain r1 r2 where
    e: "setAll r fd (map Enum_Name (File_EnumType fd)) = Inr r1"
    and m: "setAll r1 fd (concat (map (\<lambda>m. [Message_Name m, typeToInterface (Message_Name m),
                            typeToJSONInterface (Message_Name m)]) (File_MessageType fd))) = Inr r2"
    and s: "setAll r2 fd (map Service_Name (File_Service fd)) = Inr r'"
    unfolding declaredNames_def setAll_append_Inr by blast
  from addMessages_succeeds [OF m assms(2)] obtain pf2 lg' where
    m': "addMessages fd (File_MessageType fd)
       (r1, (newProtoFile fd)\<lparr>Enums := map (\<lambda>e. \<lparr>enum_Name = Enum_Name e, enum_Values = enumKeyVals e\<rparr>)
                                      (File_EnumType fd)\<rparr>, lg) = Inr (r2, pf2, lg')"
    by blast
  from addServices_succeeds [OF s] obtain pf where
    s': "addServices fd (File_Service fd) (r2, pf2) = Inr (r', pf)" by blast
  from e m' s' show ?thesis unfolding buildFile_Inr by blast
qed


subsection \<open>Nested enums\<close>

text \<open>
  Claim C8.  An enum declared inside a message is modelled under the name of the message,
  an underscore and its own name, with its values, in the list of nested enums of the
  model of that message (in declaration order).  The list of enums of the file model
  holds the enums declared at file level and nothing else.
\<close>

theorem nested_enum_named_after_message:
  assumes "buildFile fd (resolver, lg) = Inr (resolver', pfile, lg')"
  shows "map mv_NestedEnums (Messages pfile)
           = map (\<lambda>m. map (\<lambda>e. \<lparr>enum_Name = Message_Name m @ ''_'' @ Enum_Name e,
                                   enum_Values = enumKeyVals e\<rparr>) (Message_EnumType m))
               (File_MessageType fd)
         \<and> map mv_Name (Messages pfile) = map Message_Name (File_MessageType fd)
         \<and> Enums pfile
             = map (\<lambda>e. \<lparr>enum_Name = Enum_Name e, enum_Values = enumKeyVals e\<rparr>) (File_EnumType fd)"
proof -
  have "map mv_NestedEnums (Messages pfile) = map nestedEnums (File_MessageType fd)"
    by (rule buildFile_Messages(4) [OF assms])
  moreover have "nestedEnums = (\<lambda>m. map (\<lambda>e. \<lparr>enum_Name = Message_Name m @ ''_'' @ Enum_Name e,
                                   enum_Values = enumKeyVals e\<rparr>) (Message_EnumType m))"
    by (rule ext) (simp add: nestedEnums_def)
  ultimately show ?thesis
    using buildFile_Messages(1) [OF assms] buildFile_Enums(1) [OF assms] by simp
qed

theorem nested_enum_named_after_message_witness:
  "\<exists>resolver' pfile lg'.
     buildFile orderFile (Map.empty, []) = Inr (resolver', pfile, lg')
     \<and> map mv_NestedEnums (Messages pfile)
         = [[\<lparr>enum_Name = ''Order_Status'',
              enum_Values = [\<lparr>kv_Name = ''PENDING'', kv_Value = 0\<rparr>,
                             \<lparr>kv_Name = ''PAID'', kv_Value = 1\<rparr>]\<rparr>], []]
     \<and> map mv_Name (Messages pfile) = [''Order'', ''Receipt'']
     \<and> Enums pfile = []"
proof -
  have "\<not> isl (buildFile orderFile (Map.empty, []))" by code_simp
  then obtain resolver' pfile lg' where
    b: "buildFile orderFile (Map.empty, []) = Inr (resolver', pfile, lg')"
    by (cases "buildFile orderFile (Map.empty, [])") auto
  from nested_enum_named_after_message [OF b] b show ?thesis
    by (simp add: orderFile_def orderMessage_def enumKeyVals_def)
qed


subsection \<open>Nested messages\<close>

text \<open>
  Claim C9, as amended.  A message that declares nested messages is warned about once,
  however many nested messages it declares: the log of a file grows by one warning for
  each of its messages that has a nested message.  Nothing of the nested messages
  reaches the model (the list of nested types of every message model is empty) or the
  registry (only the names of the file's own declarations are added), and the message's
  own fields, the messages after it and the rest of the file are modelled all the same.
\<close>

theorem nested_messages_one_warning_per_message:
  assumes "buildFile fd (resolver, lg) = Inr (resolver', pfile, lg')"
  shows "lg' = lg @ map (\<lambda>m. nestedWarning)
                      (filter (\<lambda>m. Message_NestedType m \<noteq> []) (File_MessageType fd))
         \<and> map mv_NestedTypes (Messages pfile) = map (\<lambda>m. []) (File_MessageType fd)
         \<and> map mv_Name (Messages pfile) = map Message_Name (File_MessageType fd)
         \<and> map (\<lambda>v. map fv_Name (mv_Fields v)) (Messages pfile)
             = map (\<lambda>m. map Field_Name (Message_Field m)) (File_MessageType fd)
         \<and> map mv_NestedEnums (Messages pfile) = map nestedEnums (File_MessageType fd)
         \<and> setAll resolver fd (declaredNames fd) = Inr resolver'"
  using buildFile_log [OF assms] buildFile_Messages(5) [OF assms] buildFile_Messages(1) [OF assms]
    buildFile_Messages(6) [OF assms] buildFile_Messages(4) [OF assms] buildFile_registry [OF assms]
  by simp

theorem nested_messages_one_warning_per_message_witness:
  "\<exists>resolver' pfile lg'.
     buildFile orderFile (Map.empty, []) = Inr (resolver', pfile, lg')
     \<and> lg' = [''warning: nested messages are not supported yet'']
     \<and> map mv_NestedTypes (Messages pfile) = [[], []]
     \<and> map mv_Name (Messages pfile) = [''Order'', ''Receipt'']
     \<and> map (\<lambda>v. map fv_Name (mv_Fields v)) (Messages pfile)
         = [[''created_at'', ''history'', ''payload''], [''id'']]"
proof -
  have "\<not> isl (buildFile orderFile (Map.empty, []))" by code_simp
  then obtain resolver' pfile lg' where
    b: "buildFile orderFile (Map.empty, []) = Inr (resolver', pfile, lg')"
    by (cases "buildFile orderFile (Map.empty, [])") auto
  from nested_messages_one_warning_per_message [OF b] b show ?thesis
    by (simp add: orderFile_def orderMessage_def nestedWarning_def messageField_def
        scalarField_def stringField_def)
qed

text \<open>Against C9 as stated (one warning for each nested message declaration): the
  message \<^verbatim>\<open>Order\<close> declares two nested messages, and the run logs one warning.\<close>

theorem nested_messages_one_warning_per_message_counterexample:
  "length (Message_NestedType orderMessage) = 2
   \<and> File_MessageType orderFile = [orderMessage, DescriptorProto ''Receipt'' [stringField ''id''] [] []]
   \<and> logOf (buildFile orderFile (Map.empty, [])) = [nestedWarning]"
  by code_simp


subsection \<open>Wire types outside the mapping table\<close>

lemma singularFieldType_outside_table:
  "\<not> tableType (Field_Type f) \<Longrightarrow> singularFieldType m f = ''string''"
  by (auto simp: tableType_def)

text \<open>
  Claim C7, as amended.  A field whose wire type is not in the mapping table (bytes,
  group) is typed \<^verbatim>\<open>string\<close> in the model, and the fallback is silent: the lines a file
  adds to the log are its nested-message warnings, whatever the types of its fields (the
  log call of the default branch is commented out in the source).
\<close>

theorem unrecognized_type_string_without_diagnostic:
  assumes "buildFile fd (resolver, lg) = Inr (resolver', pfile, lg')"
  shows "map (\<lambda>v. map fv_Type (mv_Fields v)) (Messages pfile)
           = map (\<lambda>m. map (\<lambda>f. if tableType (Field_Type f)
                                 then removePkg (singularFieldType m f) else ''string'')
                         (Message_Field m)) (File_MessageType fd)
         \<and> lg' = lg @ map (\<lambda>m. nestedWarning)
                        (filter (\<lambda>m. Message_NestedType m \<noteq> []) (File_MessageType fd))"
proof -
  have str: "removePkg ''string'' = ''string''" by (rule removePkg_no_dot) simp
  have eq: "\<And>m f. (if tableType (Field_Type f) then removePkg (singularFieldType m f) else ''string'')
      = removePkg (singularFieldType m f)"
    using singularFieldType_outside_table str by (simp del: singularFieldType.simps)
  show ?thesis
    using buildFile_Messages(7) [OF assms] buildFile_log [OF assms]
    by (simp add: eq del: singularFieldType.simps)
qed

theorem unrecognized_type_string_without_diagnostic_witness:
  "\<exists>resolver' pfile lg'.
     buildFile blobFile (Map.empty, []) = Inr (resolver', pfile, lg')
     \<and> map (\<lambda>v. map fv_Type (mv_Fields v)) (Messages pfile) = [[''string'']]
     \<and> lg' = []"
proof -
  have "\<not> isl (buildFile blobFile (Map.empty, []))" by code_simp
  then obtain resolver' pfile lg' where
    b: "buildFile blobFile (Map.empty, []) = Inr (resolver', pfile, lg')"
    by (cases "buildFile blobFile (Map.empty, [])") auto
  from unrecognized_type_string_without_diagnostic [OF b] b show ?thesis
    by (simp add: blobFile_def scalarField_def tableType_def)
qed

text \<open>Against C7 as stated (the fallback is logged): a file whose one field is of type
  bytes is typed \<^verbatim>\<open>string\<close>, its model pass logs nothing, and the log of the whole run
  holds the three lines of the files written.\<close>

theorem unrecognized_type_diagnostic_counterexample:
  "map Field_Type (concat (map Message_Field (File_MessageType blobFile))) = [TYPE_BYTES]
   \<and> map (\<lambda>pf. map (\<lambda>v. map fv_Type (mv_Fields v)) (Messages pf))
        (modelsOf (buildFiles [blobFile] (Map.empty, Map.empty, [])) ''blob'') = [[[''string'']]]
   \<and> logOf (buildFiles [blobFile] (Map.empty, Map.empty, [])) = []
   \<and> (case generate sampleRenderer [''blob''] \<lparr>ProtoFile = [blobFile]\<rparr> of
         Inl e \<Rightarrow> None | Inr (files, lg) \<Rightarrow> Some lg)
       = Some [''wrote: twirp.ts'', ''wrote: blob/blob.ts'', ''wrote: blob/index.ts'']"
  by code_simp


subsection \<open>Timestamp fields\<close>






subsection \<open>The pass over the files\<close>

lemma buildFiles_Cons_Inr:
  "buildFiles (fd # fds) (r, outs, lg) = Inr res \<longleftrightarrow>
     (\<exists>r1 pf lg1.
        buildFile fd (r, lg) = Inr (r1, pf, lg1)
        \<and> buildFiles fds
             (r1,
              outs(tsImportPath fd \<mapsto>
                (case outs (tsImportPath fd) of None \<Rightarrow> [] | Some pff \<Rightarrow> pff) @ [pf]),
              lg1) = Inr res)"
  by (auto split: sum.splits)

lemma buildFiles_registry:
  assumes "buildFiles fds (r, outs, lg) = Inr (r', outs', lg')"
  shows "declareFiles r fds = Inr r'"
  using assms
proof (induction fds arbitrary: r outs lg)
  case Nil
  then show ?case by simp
next
  case (Cons fd fds)
  from Cons.prems obtain r1 pf lg1 where
    s: "buildFile fd (r, lg) = Inr (r1, pf, lg1)"
    and t: "buildFiles fds
             (r1,
              outs(tsImportPath fd \<mapsto>
                (case outs (tsImportPath fd) of None \<Rightarrow> [] | Some pff \<Rightarrow> pff) @ [pf]),
              lg1) = Inr (r', outs', lg')"
    unfolding buildFiles_Cons_Inr by blast
  show ?case using buildFile_registry [OF s] Cons.IH [OF t] by simp
qed

text \<open>After a pass that started with an empty registry, a name resolves to a file
  exactly when that file is one of the files of the pass and declares the name.\<close>

lemma declareFiles_lookup:
  assumes "declareFiles r fds = Inr r'"
  shows "r' k = Some A \<longleftrightarrow>
           r k = Some A \<or> (A \<in> set fds \<and> k \<in> set (map (fullTypeName A) (declaredNames A)))"
  using assms
proof (induction fds arbitrary: r)
  case Nil
  then show ?case by simp
next
  case (Cons fd fds)
  from Cons.prems obtain r1 where
    s: "setAll r fd (declaredNames fd) = Inr r1" and t: "declareFiles r1 fds = Inr r'"
    by (auto split: sum.splits)
  from s have fresh: "\<forall>n \<in> set (declaredNames fd). r (fullTypeName fd n) = None"
    and r1: "r1 = (\<lambda>k. if k \<in> fullTypeName fd ` set (declaredNames fd) then Some fd else r k)"
    by (simp_all add: setAll_Inr)
  have "r1 k = Some A \<longleftrightarrow>
          r k = Some A \<or> (A = fd \<and> k \<in> set (map (fullTypeName A) (declaredNames A)))"
    using fresh by (auto simp: r1)
  with Cons.IH [OF t] show ?case by auto
qed

lemma buildFiles_succeeds:
  assumes "declareFiles r fds = Inr r'"
      and "\<forall>fd \<in> set fds. \<forall>m \<in> set (File_MessageType fd). \<forall>f \<in> set (Message_Field m).
             camelCase (Field_Name f) \<noteq> Inl SliceBoundsPanic"
  shows "\<exists>outs' lg'. buildFiles fds (r, outs, lg) = Inr (r', outs', lg')"
  using assms
proof (induction fds arbitrary: r outs lg)
  case Nil
  then show ?case by simp
next
  case (Cons fd fds)
  from Cons.prems(1) obtain r1 where
    s: "setAll r fd (declaredNames fd) = Inr r1" and t: "declareFiles r1 fds = Inr r'"
    by (auto split: sum.splits)
  from Cons.prems(2) have here: "\<forall>m \<in> set (File_MessageType fd). \<forall>f \<in> set (Message_Field m).
             camelCase (Field_Name f) \<noteq> Inl SliceBoundsPanic"
    and rest: "\<forall>fd \<in> set fds. \<forall>m \<in> set (File_MessageType fd). \<forall>f \<in> set (Message_Field m).
             camelCase (Field_Name f) \<noteq> Inl SliceBoundsPanic"
    by simp_all
  from buildFile_succeeds [OF s here] obtain pf lg1 where
    b: "buildFile fd (r, lg) = Inr (r1, pf, lg1)" by blast
  from Cons.IH [OF t rest] b show ?case
    unfolding buildFiles_Cons_Inr by blast
qed

text \<open>Every file of a pass gets its model: the group of an output directory holds, in
  the order of the request, the models of the files of that directory.\<close>

lemma buildFiles_groups:
  assumes "buildFiles fds (r, outs, lg) = Inr (r', outs', lg')"
  shows "map Output (case outs' k of None \<Rightarrow> [] | Some pff \<Rightarrow> pff)
           = map Output (case outs k of None \<Rightarrow> [] | Some pff \<Rightarrow> pff)
             @ map tsFileName (filter (\<lambda>fd. tsImportPath fd = k) fds)"
    and "dom outs' = dom outs \<union> tsImportPath ` set fds"
  using assms
proof (induction fds arbitrary: r outs lg)
  case Nil
  {
    case 1
    then show ?case by simp
  next
    case 2
    then show ?case by simp
  }
next
  case (Cons fd fds)
  {
    case 1
    from 1 obtain r1 pf lg1 where
    s: "buildFile fd (r, lg) = Inr (r1, pf, lg1)"
    and t: "buildFiles fds
             (r1,
              outs(tsImportPath fd \<mapsto>
                (case outs (tsImportPath fd) of None \<Rightarrow> [] | Some pff \<Rightarrow> pff) @ [pf]),
              lg1) = Inr (r', outs', lg')"
      unfolding buildFiles_Cons_Inr by blast
    show ?case using Cons.IH(1) [OF t] buildFile_Enums(2) [OF s] by auto
  next
    case 2
    from 2 obtain r1 pf lg1 where
    s: "buildFile fd (r, lg) = Inr (r1, pf, lg1)"
    and t: "buildFiles fds
             (r1,
              outs(tsImportPath fd \<mapsto>
                (case outs (tsImportPath fd) of None \<Rightarrow> [] | Some pff \<Rightarrow> pff) @ [pf]),
              lg1) = Inr (r', outs', lg')"
      unfolding buildFiles_Cons_Inr by blast
    show ?case using Cons.IH(2) [OF t] by auto
  }
qed

lemma catalogRegistry_pass:
  "\<exists>outs lg. buildFiles [catalogFile] (Map.empty, Map.empty, []) = Inr (catalogRegistry, outs, lg)"
proof -
  have "\<not> isl (buildFiles [catalogFile] (Map.empty, Map.empty, []))" by code_simp
  then obtain r outs lg where b: "buildFiles [catalogFile] (Map.empty, Map.empty, []) = Inr (r, outs, lg)"
    by (cases "buildFiles [catalogFile] (Map.empty, Map.empty, [])") auto
  have names: "map (fullTypeName catalogFile) (declaredNames catalogFile)
      = [''.catalog.Currency'', ''.catalog.Item'', ''.catalog.IItem'', ''.catalog.IItemJSON'']"
    by code_simp
  from buildFiles_registry [OF b] have "setAll Map.empty catalogFile (declaredNames catalogFile) = Inr r"
    by (simp split: sum.splits)
  then have "r = (\<lambda>k. if k \<in> set (map (fullTypeName catalogFile) (declaredNames catalogFile))
                         then Some catalogFile else None)"
    by (simp add: setAll_Inr)
  then have "r = catalogRegistry"
    unfolding names by (auto simp: catalogRegistry_def fun_eq_iff)
  with b show ?thesis by blast
qed


subsection \<open>References that do not resolve\<close>

lemma importKeys_resolved_only:
  "importKeys r fd (filter (\<lambda>ref. r ref \<noteq> None) refs) = importKeys r fd refs"
  by (induction refs) (auto simp: importKeys_Cons)

lemma addMessages_flags:
  assumes "addMessages fd ms (r, pf, lg) = Inr (r', pf', lg')"
  shows "map (\<lambda>v. map fv_IsEnum (mv_Fields v)) (Messages pf')
           = map (\<lambda>v. map fv_IsEnum (mv_Fields v)) (Messages pf)
             @ map (\<lambda>m. map (\<lambda>f. Field_Type f = TYPE_ENUM) (Message_Field m)) ms
       \<and> map (\<lambda>v. map (\<lambda>x. Inr (fv_Field x)) (mv_Fields v)) (Messages pf')
           = map (\<lambda>v. map (\<lambda>x. Inr (fv_Field x)) (mv_Fields v)) (Messages pf)
             @ map (\<lambda>m. map (\<lambda>f. camelCase (Field_Name f)) (Message_Field m)) ms"
  using assms
proof (induction ms arbitrary: r pf lg)
  case Nil
  then show ?case by simp
next
  case (Cons m ms)
  from Cons.prems obtain r1 pf1 lg1 where
    s: "addMessage fd m (r, pf, lg) = Inr (r1, pf1, lg1)"
    and t: "addMessages fd ms (r1, pf1, lg1) = Inr (r', pf', lg')"
    unfolding addMessages_Cons_Inr by blast
  from s obtain pf0 fs where
    b: "addFields r1 fd m (Message_Field m) (pf, []) = Inr (pf0, fs)"
    and c: "pf1 = pf0\<lparr>Messages := Messages pf0
                   @ [messageValues (Message_Name m) (typeToInterface (Message_Name m))
                        (typeToJSONInterface (Message_Name m)) fs [] (nestedEnums m)]\<rparr>"
    unfolding addMessage_Inr by blast
  show ?case
    using Cons.IH [OF t] addFields_frame [OF b] addFields_models [OF b] by (simp add: c)
qed

lemma buildFile_flags:
  assumes "buildFile fd (r, lg) = Inr (r', pf, lg')"
  shows "map (\<lambda>v. map fv_IsEnum (mv_Fields v)) (Messages pf)
           = map (\<lambda>m. map (\<lambda>f. Field_Type f = TYPE_ENUM) (Message_Field m)) (File_MessageType fd)"
    and "map (\<lambda>v. map (\<lambda>x. Inr (fv_Field x)) (mv_Fields v)) (Messages pf)
           = map (\<lambda>m. map (\<lambda>f. camelCase (Field_Name f)) (Message_Field m)) (File_MessageType fd)"
proof -
  from assms obtain r1 r2 pf2 where
    m: "addMessages fd (File_MessageType fd)
       (r1, (newProtoFile fd)\<lparr>Enums := map (\<lambda>e. \<lparr>enum_Name = Enum_Name e, enum_Values = enumKeyVals e\<rparr>)
                                      (File_EnumType fd)\<rparr>, lg) = Inr (r2, pf2, lg')"
    and s: "addServices fd (File_Service fd) (r2, pf2) = Inr (r', pf)"
    by (rule buildFile_parts)
  have eq: "Messages pf = Messages pf2" using addServices_frame [OF s] by simp
  show "map (\<lambda>v. map fv_IsEnum (mv_Fields v)) (Messages pf)
           = map (\<lambda>m. map (\<lambda>f. Field_Type f = TYPE_ENUM) (Message_Field m)) (File_MessageType fd)"
    and "map (\<lambda>v. map (\<lambda>x. Inr (fv_Field x)) (mv_Fields v)) (Messages pf)
           = map (\<lambda>m. map (\<lambda>f. camelCase (Field_Name f)) (Message_Field m)) (File_MessageType fd)"
    using addMessages_flags [OF m] by (simp_all add: eq newProtoFile_def)
qed

lemma addServices_headers:
  assumes "addServices fd ss (r, pf) = Inr (r', pf')"
  shows "map sv_Package (Services pf') = map sv_Package (Services pf) @ map (\<lambda>s. File_Package fd) ss
       \<and> map sv_Interface (Services pf')
           = map sv_Interface (Services pf) @ map (\<lambda>s. typeToInterface (Service_Name s)) ss"
  using assms
proof (induction ss arbitrary: r pf)
  case Nil
  then show ?case by simp
next
  case (Cons s ss)
  from Cons.prems obtain r1 pf1 where
    s: "addService fd s (r, pf) = Inr (r1, pf1)"
    and t: "addServices fd ss (r1, pf1) = Inr (r', pf')"
    unfolding addServices_Cons_Inr by blast
  from addService_facts(7) [OF s] obtain v where v: "Services pf1 = Services pf @ [v]"
    "sv_Package v = File_Package fd" "sv_Interface v = typeToInterface (Service_Name s)"
    by blast
  show ?case using Cons.IH [OF t] by (simp add: v)
qed

lemma buildFile_service_headers:
  assumes "buildFile fd (r, lg) = Inr (r', pf, lg')"
  shows "map sv_Package (Services pf) = map (\<lambda>s. File_Package fd) (File_Service fd)"
    and "map sv_Interface (Services pf)
           = map (\<lambda>s. typeToInterface (Service_Name s)) (File_Service fd)"
proof -
  from assms obtain r1 r2 pf2 where
    m: "addMessages fd (File_MessageType fd)
       (r1, (newProtoFile fd)\<lparr>Enums := map (\<lambda>e. \<lparr>enum_Name = Enum_Name e, enum_Values = enumKeyVals e\<rparr>)
                                      (File_EnumType fd)\<rparr>, lg) = Inr (r2, pf2, lg')"
    and s: "addServices fd (File_Service fd) (r2, pf2) = Inr (r', pf)"
    by (rule buildFile_parts)
  have eq: "Services pf2 = []" using addMessages_frame [OF m] by (simp add: newProtoFile_def)
  show "map sv_Package (Services pf) = map (\<lambda>s. File_Package fd) (File_Service fd)"
    and "map sv_Interface (Services pf)
           = map (\<lambda>s. typeToInterface (Service_Name s)) (File_Service fd)"
    using addServices_headers [OF s] by (simp_all add: eq)
qed

lemma buildFile_modelOf:
  assumes "buildFile fd (r0, lg) = Inr (r1, pfile, lg')"
  shows "modelOf r0 fd pfile"
  unfolding modelOf_def importKeys_resolved_only
  using buildFile_Enums(2,3,1) [OF assms] buildFile_Messages(1-6) [OF assms]
    buildFile_flags(2) [OF assms] buildFile_Messages(7) [OF assms] buildFile_flags(1) [OF assms]
    buildFile_Messages(8) [OF assms] buildFile_Services(1) [OF assms]
    buildFile_service_headers [OF assms] buildFile_Services(2-4) [OF assms]
    buildFile_dom [OF assms]
  by (intro conjI)

lemma buildFiles_append:
  "buildFiles (xs @ ys) st =
     (case buildFiles xs st of Inl e \<Rightarrow> Inl e | Inr st' \<Rightarrow> buildFiles ys st')"
proof (induction xs arbitrary: st)
  case Nil
  then show ?case by (cases st) simp
next
  case (Cons fd xs)
  obtain r outs lg where st: "st = (r, outs, lg)" by (cases st)
  show ?case unfolding st append_Cons
    by (simp add: Cons.IH split: sum.splits)
qed

lemma buildFiles_keeps_models:
  assumes "buildFiles fds (r, outs, lg) = Inr (r', outs', lg')"
  shows "set (case outs k of None \<Rightarrow> [] | Some pff \<Rightarrow> pff)
           \<subseteq> set (case outs' k of None \<Rightarrow> [] | Some pff \<Rightarrow> pff)"
  using assms
proof (induction fds arbitrary: r outs lg)
  case Nil
  then show ?case by simp
next
  case (Cons fd fds)
  from Cons.prems obtain r1 pf lg1 where
    t: "buildFiles fds
             (r1,
              outs(tsImportPath fd \<mapsto>
                (case outs (tsImportPath fd) of None \<Rightarrow> [] | Some pff \<Rightarrow> pff) @ [pf]),
              lg1) = Inr (r', outs', lg')"
    unfolding buildFiles_Cons_Inr by blast
  from Cons.IH [OF t] show ?case by (auto split: if_splits)
qed

lemma declareFiles_catalogFile: "declareFiles Map.empty [catalogFile] = Inr catalogRegistry"
proof -
  from catalogRegistry_pass obtain outs lg where
    "buildFiles [catalogFile] (Map.empty, Map.empty, []) = Inr (catalogRegistry, outs, lg)"
    by blast
  then show ?thesis by (rule buildFiles_registry)
qed

text \<open>
  The pass over the files of a request runs to its end whenever the registry accepts the
  declarations of the files and every field name can be camel-cased, whatever the
  references of the files resolve to.  Every file of the request then has its complete
  model in the group of its output directory, and the imports of the file come from the
  references that resolve in the registry as the files before it left it, and from no
  other.
\<close>

lemma buildFiles_complete_models:
  assumes "declareFiles Map.empty fds = Inr resolver'"
      and "\<forall>fd \<in> set fds. \<forall>m \<in> set (File_MessageType fd). \<forall>f \<in> set (Message_Field m).
             camelCase (Field_Name f) \<noteq> Inl SliceBoundsPanic"
  shows "\<exists>outputFiles lg.
           buildFiles fds (Map.empty, Map.empty, []) = Inr (resolver', outputFiles, lg)
           \<and> (\<forall>pre fd post. fds = pre @ fd # post \<longrightarrow>
                (\<exists>r0 pfile.
                   declareFiles Map.empty pre = Inr r0
                   \<and> pfile \<in> set (case outputFiles (tsImportPath fd) of
                                     None \<Rightarrow> [] | Some pff \<Rightarrow> pff)
                   \<and> modelOf r0 fd pfile))"
proof -
  from buildFiles_succeeds [OF assms] obtain outputFiles lg where
    b: "buildFiles fds (Map.empty, Map.empty, []) = Inr (resolver', outputFiles, lg)"
    by blast
  have each: "\<exists>r0 pfile.
                   declareFiles Map.empty pre = Inr r0
                   \<and> pfile \<in> set (case outputFiles (tsImportPath fd) of
                                     None \<Rightarrow> [] | Some pff \<Rightarrow> pff)
                   \<and> modelOf r0 fd pfile"
    if split: "fds = pre @ fd # post" for pre fd post
  proof -
    from b obtain r0 outs0 lg0 where
      p: "buildFiles pre (Map.empty, Map.empty, []) = Inr (r0, outs0, lg0)"
      and q: "buildFiles (fd # post) (r0, outs0, lg0) = Inr (resolver', outputFiles, lg)"
      unfolding split buildFiles_append by (auto split: sum.splits)
    from q obtain r1 pf lg1 where
      s: "buildFile fd (r0, lg0) = Inr (r1, pf, lg1)"
      and t: "buildFiles post
             (r1,
              outs0(tsImportPath fd \<mapsto>
                (case outs0 (tsImportPath fd) of None \<Rightarrow> [] | Some pff \<Rightarrow> pff) @ [pf]),
              lg1) = Inr (resolver', outputFiles, lg)"
      unfolding buildFiles_Cons_Inr by blast
    from buildFiles_keeps_models [OF t, of "tsImportPath fd"]
    have "pf \<in> set (case outputFiles (tsImportPath fd) of None \<Rightarrow> [] | Some pff \<Rightarrow> pff)"
      by auto
    with buildFiles_registry [OF p] buildFile_modelOf [OF s] show ?thesis by blast
  qed
  from b each show ?thesis by blast
qed

lemma buildFiles_complete_models_cart:
  "map (\<lambda>ref. catalogRegistry ref = None) (fileRefs cartFile)
     = [False, False, True, True, True, False]
   \<and> (\<exists>resolver' outputFiles lg pfile.
         buildFiles [catalogFile, cartFile] (Map.empty, Map.empty, [])
           = Inr (resolver', outputFiles, lg)
         \<and> pfile \<in> set (case outputFiles ''cart'' of None \<Rightarrow> [] | Some pff \<Rightarrow> pff)
         \<and> map (\<lambda>v. map fv_Name (mv_Fields v)) (Messages pfile)
             = [[''items'', ''first_item'', ''parent'', ''gift'']]
         \<and> map (\<lambda>v. map fv_Type (mv_Fields v)) (Messages pfile)
             = [[''Item'', ''Item'', ''Cart'', ''Wrap'']]
         \<and> map (\<lambda>v. map smv_InputType (sv_Methods v)) (Services pfile) = [[''Cart'']]
         \<and> map (\<lambda>v. map smv_OutputType (sv_Methods v)) (Services pfile) = [[''Item'']]
         \<and> dom (Imports pfile) = {''catalog/catalog.ts''})"
proof -
  have refs: "map (\<lambda>ref. catalogRegistry ref = None) (fileRefs cartFile)
     = [False, False, True, True, True, False]"
    by (simp add: catalogRegistry_def fileRefs_def cartFile_def cartMessage_def messageField_def)
  have "\<not> isl (declareFiles Map.empty [catalogFile, cartFile])" by code_simp
  then obtain resolver' where
    d: "declareFiles Map.empty [catalogFile, cartFile] = Inr resolver'"
    by (cases "declareFiles Map.empty [catalogFile, cartFile]") auto
  have n: "\<forall>fd \<in> set [catalogFile, cartFile]. \<forall>m \<in> set (File_MessageType fd).
             \<forall>f \<in> set (Message_Field m). camelCase (Field_Name f) \<noteq> Inl SliceBoundsPanic"
    by code_simp
  have path: "tsImportPath cartFile = ''cart''" by code_simp
  have t: "map (\<lambda>m. map (\<lambda>f. removePkg (singularFieldType m f)) (Message_Field m))
                   (File_MessageType cartFile) = [[''Item'', ''Item'', ''Cart'', ''Wrap'']]"
    by code_simp
  have i: "map (\<lambda>s. map (\<lambda>mt. removePkg (Method_InputType mt)) (Service_Method s))
                   (File_Service cartFile) = [[''Cart'']]"
    by code_simp
  have out: "map (\<lambda>s. map (\<lambda>mt. removePkg (Method_OutputType mt)) (Service_Method s))
                   (File_Service cartFile) = [[''Item'']]"
    by code_simp
  have nm: "map (\<lambda>m. map Field_Name (Message_Field m)) (File_MessageType cartFile)
             = [[''items'', ''first_item'', ''parent'', ''gift'']]"
    by code_simp
  have k: "importKeys catalogRegistry cartFile
             (filter (\<lambda>ref. catalogRegistry ref \<noteq> None) (fileRefs cartFile))
           = [''catalog/catalog.ts'', ''catalog/catalog.ts'', ''catalog/catalog.ts'']"
    by code_simp
  from buildFiles_complete_models [OF d n] obtain outputFiles lg where
    b: "buildFiles [catalogFile, cartFile] (Map.empty, Map.empty, [])
          = Inr (resolver', outputFiles, lg)"
    and each: "\<forall>pre fd post. [catalogFile, cartFile] = pre @ fd # post \<longrightarrow>
                (\<exists>r0 pfile.
                   declareFiles Map.empty pre = Inr r0
                   \<and> pfile \<in> set (case outputFiles (tsImportPath fd) of
                                     None \<Rightarrow> [] | Some pff \<Rightarrow> pff)
                   \<and> modelOf r0 fd pfile)"
    by blast
  have "[catalogFile, cartFile] = [catalogFile] @ cartFile # []" by simp
  with each obtain r0 pfile where
    r0: "declareFiles Map.empty [catalogFile] = Inr r0"
    and mem: "pfile \<in> set (case outputFiles (tsImportPath cartFile) of
                                     None \<Rightarrow> [] | Some pff \<Rightarrow> pff)"
    and m: "modelOf r0 cartFile pfile"
    by blast
  from r0 have "r0 = catalogRegistry" unfolding declareFiles_catalogFile by simp
  with m have m': "modelOf catalogRegistry cartFile pfile" by simp
  have f5: "dom (Imports pfile) = {''catalog/catalog.ts''}"
    using m' unfolding modelOf_def k by simp
  show ?thesis
  proof (intro conjI exI)
    show "map (\<lambda>ref. catalogRegistry ref = None) (fileRefs cartFile)
            = [False, False, True, True, True, False]" by (rule refs)
    show "buildFiles [catalogFile, cartFile] (Map.empty, Map.empty, [])
          = Inr (resolver', outputFiles, lg)" by (rule b)
    show "pfile \<in> set (case outputFiles ''cart'' of None \<Rightarrow> [] | Some pff \<Rightarrow> pff)"
      using mem unfolding path .
    show "map (\<lambda>v. map fv_Name (mv_Fields v)) (Messages pfile)
            = [[''items'', ''first_item'', ''parent'', ''gift'']]"
      using m' unfolding modelOf_def nm by simp
    show "map (\<lambda>v. map fv_Type (mv_Fields v)) (Messages pfile)
            = [[''Item'', ''Item'', ''Cart'', ''Wrap'']]"
      using m' unfolding modelOf_def t by simp
    show "map (\<lambda>v. map smv_InputType (sv_Methods v)) (Services pfile) = [[''Cart'']]"
      using m' unfolding modelOf_def i by simp
    show "map (\<lambda>v. map smv_OutputType (sv_Methods v)) (Services pfile) = [[''Item'']]"
      using m' unfolding modelOf_def out by simp
    show "dom (Imports pfile) = {''catalog/catalog.ts''}" by (rule f5)
  qed
qed

text \<open>
  Claim C6.  The claim asks that a field or a method whose type name the registry does
  not know be modelled all the same, under the local name of the type, with no import
  recorded, and that the pass go on with the rest of the file and with the other files.
  The pass does go on and records no import, but the type is what \<^verbatim>\<open>removePkg\<close> makes of
  the name, which is the local name only for a package of one segment.  In the request
  below no file declares the type \<^verbatim>\<open>Item\<close> of the package \<^verbatim>\<open>shop.v1\<close>: the registry does
  not know the name at the end of the pass, the model of \<^verbatim>\<open>parcel.proto\<close> has all its
  messages, fields and methods and no import, the file after it has its model, and the
  field and the method that refer to the unknown type are typed \<^verbatim>\<open>v1_Item\<close>.
\<close>

theorem unresolved_reference_keeps_package_segment:
  "\<exists>resolver outputFiles lg pfile.
     buildFiles [parcelFile, catalogFile] (Map.empty, Map.empty, [])
       = Inr (resolver, outputFiles, lg)
     \<and> resolver ''.shop.v1.Item'' = None
     \<and> pfile \<in> set (case outputFiles ''parcel'' of None \<Rightarrow> [] | Some pff \<Rightarrow> pff)
     \<and> map mv_Name (Messages pfile) = [''Parcel'', ''Label'']
     \<and> map (\<lambda>v. map fv_Name (mv_Fields v)) (Messages pfile) = [[''item'', ''note''], [''text'']]
     \<and> map (\<lambda>v. map fv_Type (mv_Fields v)) (Messages pfile)
         = [[''v1_Item'', ''string''], [''string'']]
     \<and> map (\<lambda>v. map smv_Name (sv_Methods v)) (Services pfile) = [[''Track'']]
     \<and> map (\<lambda>v. map smv_InputType (sv_Methods v)) (Services pfile) = [[''v1_Item'']]
     \<and> map (\<lambda>v. map smv_OutputType (sv_Methods v)) (Services pfile) = [[''Parcel'']]
     \<and> dom (Imports pfile) = {}
     \<and> map Output (case outputFiles ''catalog'' of None \<Rightarrow> [] | Some pff \<Rightarrow> pff)
         = [''catalog/catalog.ts'']"
proof -
  have "\<not> isl (declareFiles Map.empty [parcelFile, catalogFile])" by code_simp
  then obtain resolver where
    d: "declareFiles Map.empty [parcelFile, catalogFile] = Inr resolver"
    by (cases "declareFiles Map.empty [parcelFile, catalogFile]") auto
  have n: "\<forall>fd \<in> set [parcelFile, catalogFile]. \<forall>m \<in> set (File_MessageType fd).
             \<forall>f \<in> set (Message_Field m). camelCase (Field_Name f) \<noteq> Inl SliceBoundsPanic"
    by code_simp
  from buildFiles_complete_models [OF d n] obtain outputFiles lg where
    b: "buildFiles [parcelFile, catalogFile] (Map.empty, Map.empty, [])
          = Inr (resolver, outputFiles, lg)"
    and each: "\<forall>pre fd post. [parcelFile, catalogFile] = pre @ fd # post \<longrightarrow>
                (\<exists>r0 pfile.
                   declareFiles Map.empty pre = Inr r0
                   \<and> pfile \<in> set (case outputFiles (tsImportPath fd) of
                                     None \<Rightarrow> [] | Some pff \<Rightarrow> pff)
                   \<and> modelOf r0 fd pfile)"
    by blast
  have "[parcelFile, catalogFile] = [] @ parcelFile # [catalogFile]" by simp
  with each obtain r0 pfile where
    r0: "declareFiles Map.empty [] = Inr r0"
    and mem: "pfile \<in> set (case outputFiles (tsImportPath parcelFile) of
                                     None \<Rightarrow> [] | Some pff \<Rightarrow> pff)"
    and m: "modelOf r0 parcelFile pfile"
    by blast
  from r0 have "r0 = Map.empty" by simp
  with m have m': "modelOf Map.empty parcelFile pfile" by simp
  have path: "tsImportPath parcelFile = ''parcel''" by code_simp
  have mn: "map Message_Name (File_MessageType parcelFile) = [''Parcel'', ''Label'']"
    by code_simp
  have nm: "map (\<lambda>m. map Field_Name (Message_Field m)) (File_MessageType parcelFile)
             = [[''item'', ''note''], [''text'']]"
    by code_simp
  have t: "map (\<lambda>m. map (\<lambda>f. removePkg (singularFieldType m f)) (Message_Field m))
             (File_MessageType parcelFile) = [[''v1_Item'', ''string''], [''string'']]"
    by code_simp
  have sn: "map (\<lambda>s. map Method_Name (Service_Method s)) (File_Service parcelFile) = [[''Track'']]"
    by code_simp
  have i: "map (\<lambda>s. map (\<lambda>mt. removePkg (Method_InputType mt)) (Service_Method s))
             (File_Service parcelFile) = [[''v1_Item'']]"
    by code_simp
  have out: "map (\<lambda>s. map (\<lambda>mt. removePkg (Method_OutputType mt)) (Service_Method s))
               (File_Service parcelFile) = [[''Parcel'']]"
    by code_simp
  have k: "importKeys Map.empty parcelFile
             (filter (\<lambda>ref. Map.empty ref \<noteq> None) (fileRefs parcelFile)) = []"
    by simp
  have absent: "resolver ''.shop.v1.Item'' = None"
  proof (cases "resolver ''.shop.v1.Item''")
    case None
    then show ?thesis .
  next
    case (Some A)
    with declareFiles_lookup [OF d, of "''.shop.v1.Item''" A]
    have "A \<in> set [parcelFile, catalogFile]"
      and "''.shop.v1.Item'' \<in> set (map (fullTypeName A) (declaredNames A))" by simp_all
    moreover have "''.shop.v1.Item'' \<notin> set (map (fullTypeName parcelFile) (declaredNames parcelFile))"
      by code_simp
    moreover have "''.shop.v1.Item'' \<notin> set (map (fullTypeName catalogFile) (declaredNames catalogFile))"
      by code_simp
    ultimately show ?thesis by auto
  qed
  have "map tsFileName (filter (\<lambda>fd. tsImportPath fd = ''catalog'') [parcelFile, catalogFile])
          = [''catalog/catalog.ts'']"
    by code_simp
  with buildFiles_groups(1) [OF b, of "''catalog''"]
  have cat: "map Output (case outputFiles ''catalog'' of None \<Rightarrow> [] | Some pff \<Rightarrow> pff)
         = [''catalog/catalog.ts'']"
    by simp
  show ?thesis
  proof (intro exI conjI)
    show "buildFiles [parcelFile, catalogFile] (Map.empty, Map.empty, [])
          = Inr (resolver, outputFiles, lg)" by (rule b)
    show "resolver ''.shop.v1.Item'' = None" by (rule absent)
    show "pfile \<in> set (case outputFiles ''parcel'' of None \<Rightarrow> [] | Some pff \<Rightarrow> pff)"
      using mem unfolding path .
    show "map mv_Name (Messages pfile) = [''Parcel'', ''Label'']"
      using m' unfolding modelOf_def mn by simp
    show "map (\<lambda>v. map fv_Name (mv_Fields v)) (Messages pfile) = [[''item'', ''note''], [''text'']]"
      using m' unfolding modelOf_def nm by simp
    show "map (\<lambda>v. map fv_Type (mv_Fields v)) (Messages pfile)
            = [[''v1_Item'', ''string''], [''string'']]"
      using m' unfolding modelOf_def t by simp
    show "map (\<lambda>v. map smv_Name (sv_Methods v)) (Services pfile) = [[''Track'']]"
      using m' unfolding modelOf_def sn by simp
    show "map (\<lambda>v. map smv_InputType (sv_Methods v)) (Services pfile) = [[''v1_Item'']]"
      using m' unfolding modelOf_def i by simp
    show "map (\<lambda>v. map smv_OutputType (sv_Methods v)) (Services pfile) = [[''Parcel'']]"
      using m' unfolding modelOf_def out by simp
    show "dom (Imports pfile) = {}"
      using m' unfolding modelOf_def k by simp
    show "map Output (case outputFiles ''catalog'' of None \<Rightarrow> [] | Some pff \<Rightarrow> pff)
         = [''catalog/catalog.ts'']" by (rule cat)
  qed
qed

subsection \<open>Imports\<close>

lemma set_importKeys:
  "set (importKeys r fd refs)
     = {tsFileName A | A ref. ref \<in> set refs \<and> r ref = Some A \<and> \<not> sameFile A fd}"
proof (induction refs)
  case Nil
  then show ?case by simp
next
  case (Cons a refs)
  show ?case
  proof (cases "r a")
    case None
    then show ?thesis using Cons by (force simp: importKeys_Cons)
  next
    case (Some A)
    then show ?thesis using Cons by (force simp: importKeys_Cons)
  qed
qed

text \<open>
  Claim C5, as amended.  Let \<open>B\<close> be a file of the request and \<open>pre\<close> the files before
  it.  The import entries of the model of \<open>B\<close> are keyed by exactly the output paths of
  the files \<open>A\<close> of \<open>pre\<close> that have another file name than \<open>B\<close> and declare a name that
  a field or a method of \<open>B\<close> refers to: one entry for each such path, however many
  references lead there (the entries are a map), none for a reference to a type of \<open>B\<close>
  itself, and none for a type of a file that comes after \<open>B\<close> in the request.  The own
  output path of \<open>B\<close> is no key unless an earlier file has the same output path.
\<close>

theorem imports_are_earlier_referenced_files:
  assumes "buildFiles pre (Map.empty, Map.empty, []) = Inr (r0, outs0, lg0)"
      and "buildFile B (r0, lg0) = Inr (r1, pfB, lg1)"
  shows "dom (Imports pfB)
           = set (map tsFileName (filter (\<lambda>A. \<not> sameFile A B \<and> references B A) pre))
         \<and> ((\<forall>A \<in> set pre. tsFileName A \<noteq> tsFileName B) \<longrightarrow> Imports pfB (tsFileName B) = None)"
proof -
  have reg: "\<And>k A. r0 k = Some A \<longleftrightarrow>
                 A \<in> set pre \<and> k \<in> set (map (fullTypeName A) (declaredNames A))"
    using declareFiles_lookup [OF buildFiles_registry [OF assms(1)]] by simp
  have "dom (Imports pfB) = set (importKeys r0 B (fileRefs B))"
    by (rule buildFile_dom [OF assms(2)])
  also have "\<dots> = {tsFileName A | A ref. ref \<in> set (fileRefs B) \<and> r0 ref = Some A \<and> \<not> sameFile A B}"
    by (rule set_importKeys)
  also have "\<dots> = set (map tsFileName (filter (\<lambda>A. \<not> sameFile A B \<and> references B A) pre))"
    unfolding reg references_def by auto
  finally have d: "dom (Imports pfB)
           = set (map tsFileName (filter (\<lambda>A. \<not> sameFile A B \<and> references B A) pre))" .
  have "(\<forall>A \<in> set pre. tsFileName A \<noteq> tsFileName B) \<longrightarrow> tsFileName B \<notin> dom (Imports pfB)"
    unfolding d by auto
  then have n: "(\<forall>A \<in> set pre. tsFileName A \<noteq> tsFileName B) \<longrightarrow> Imports pfB (tsFileName B) = None"
    by (simp add: domIff)
  from d n show ?thesis by (rule conjI)
qed

lemma buildFiles_snoc_Inr:
  assumes "buildFiles (pre @ [B]) (r, outs, lg) = Inr (r', outs', lg')"
  shows "\<exists>r0 outs0 lg0 pfB.
           buildFiles pre (r, outs, lg) = Inr (r0, outs0, lg0)
           \<and> buildFile B (r0, lg0) = Inr (r', pfB, lg')
           \<and> outs' = outs0(tsImportPath B \<mapsto>
                (case outs0 (tsImportPath B) of None \<Rightarrow> [] | Some pff \<Rightarrow> pff) @ [pfB])"
  using assms
proof (induction pre arbitrary: r outs lg)
  case Nil
  then obtain r1 pf lg1 where
    s: "buildFile B (r, lg) = Inr (r1, pf, lg1)"
    and t: "buildFiles []
             (r1,
              outs(tsImportPath B \<mapsto>
                (case outs (tsImportPath B) of None \<Rightarrow> [] | Some pff \<Rightarrow> pff) @ [pf]),
              lg1) = Inr (r', outs', lg')"
    unfolding append_Nil buildFiles_Cons_Inr by blast
  show ?case
    using s t by (intro exI [of _ r] exI [of _ outs] exI [of _ lg] exI [of _ pf]) simp
next
  case (Cons fd pre)
  from Cons.prems obtain r1 pf lg1 where
    s: "buildFile fd (r, lg) = Inr (r1, pf, lg1)"
    and t: "buildFiles (pre @ [B])
             (r1,
              outs(tsImportPath fd \<mapsto>
                (case outs (tsImportPath fd) of None \<Rightarrow> [] | Some pff \<Rightarrow> pff) @ [pf]),
              lg1) = Inr (r', outs', lg')"
    unfolding append_Cons buildFiles_Cons_Inr by blast
  from Cons.IH [OF t] s show ?case
    unfolding buildFiles_Cons_Inr by blast
qed

theorem imports_are_earlier_referenced_files_witness:
  "\<exists>r0 outs0 lg0 r1 pfB lg1.
     buildFiles [catalogFile] (Map.empty, Map.empty, []) = Inr (r0, outs0, lg0)
     \<and> buildFile cartFile (r0, lg0) = Inr (r1, pfB, lg1)
     \<and> dom (Imports pfB) = {''catalog/catalog.ts''}
     \<and> Imports pfB (tsFileName cartFile) = None"
proof -
  have "\<not> isl (buildFiles ([catalogFile] @ [cartFile]) (Map.empty, Map.empty, []))" by code_simp
  then obtain r1 outs1 lg1 where
    "buildFiles ([catalogFile] @ [cartFile]) (Map.empty, Map.empty, []) = Inr (r1, outs1, lg1)"
    by (cases "buildFiles ([catalogFile] @ [cartFile]) (Map.empty, Map.empty, [])") auto
  from buildFiles_snoc_Inr [OF this] obtain r0 outs0 lg0 pfB where
    a: "buildFiles [catalogFile] (Map.empty, Map.empty, []) = Inr (r0, outs0, lg0)"
    and b: "buildFile cartFile (r0, lg0) = Inr (r1, pfB, lg1)"
    by blast
  have k: "map tsFileName (filter (\<lambda>A. \<not> sameFile A cartFile \<and> references cartFile A) [catalogFile])
             = [''catalog/catalog.ts'']"
    by code_simp
  have n: "\<forall>A \<in> set [catalogFile]. tsFileName A \<noteq> tsFileName cartFile"
    by code_simp
  from imports_are_earlier_referenced_files [OF a b] n
  have "dom (Imports pfB) = {''catalog/catalog.ts''}" and "Imports pfB (tsFileName cartFile) = None"
    unfolding k by simp_all
  with a b show ?thesis by blast
qed

text \<open>Against C5 as stated (for any two files of a run): the file \<^verbatim>\<open>cart.proto\<close> refers
  to the message \<^verbatim>\<open>Item\<close> of \<^verbatim>\<open>catalog.proto\<close>; in a request that lists the cart
  before the catalog, the model of the cart has no import entry for the output path of
  the catalog.\<close>

theorem import_of_later_file_counterexample:
  "references cartFile catalogFile
   \<and> \<not> sameFile catalogFile cartFile
   \<and> tsFileName catalogFile = ''catalog/catalog.ts''
   \<and> map (\<lambda>pf. (Output pf, Imports pf ''catalog/catalog.ts''))
        (modelsOf (buildFiles [cartFile, catalogFile] (Map.empty, Map.empty, [])) ''cart'')
       = [(''cart/cart.ts'', None)]
   \<and> map Output (modelsOf (buildFiles [cartFile, catalogFile] (Map.empty, Map.empty, [])) ''catalog'')
       = [''catalog/catalog.ts'']"
  by code_simp


subsection \<open>Emission\<close>

lemma compileFiles_acc:
  "compileFiles R pff (ev, res) =
     (case compileFiles R pff (ev, []) of
        Inl e \<Rightarrow> Inl e
      | Inr (ev', fs) \<Rightarrow> Inr (ev', res @ fs))"
proof (induction pff arbitrary: ev res)
  case Nil
  then show ?case by simp
next
  case (Cons pf pff)
  show ?case
  proof (cases "Compile_protoFile R pf")
    case (Inl err)
    then show ?thesis by simp
  next
    case (Inr content)
    have a: "compileFiles R (pf # pff) (ev, res)
          = compileFiles R pff
              (ev\<lparr>Exports := Exports ev @ [TrimSuffix (Base (Output pf)) ''.ts'']\<rparr>,
               res @ [\<lparr>Name = Output pf, Content = content\<rparr>])"
      by (simp add: Inr Let_def)
    have b: "compileFiles R (pf # pff) (ev, [])
          = compileFiles R pff
              (ev\<lparr>Exports := Exports ev @ [TrimSuffix (Base (Output pf)) ''.ts'']\<rparr>,
               [\<lparr>Name = Output pf, Content = content\<rparr>])"
      by (simp add: Inr Let_def)
    show ?thesis
      unfolding a b
      by (subst Cons.IH, subst (2) Cons.IH) (simp split: sum.splits prod.splits)
  qed
qed

lemma emitPackage_acc:
  "emitPackage R outs k res =
     (case emitPackage R outs k [] of Inl e \<Rightarrow> Inl e | Inr fs \<Rightarrow> Inr (res @ fs))"
  unfolding emitPackage_def
  by (subst compileFiles_acc) (simp split: option.splits sum.splits prod.splits)

lemma emitPackage_Inr:
  "emitPackage R outs k res = Inr out \<longleftrightarrow>
     \<not> isl (emitPackage R outs k []) \<and> out = res @ packageFiles R outs k"
  by (subst emitPackage_acc) (auto simp: packageFiles_def split: sum.splits)

lemma emitPackages_Inr:
  "emitPackages R outs order res = Inr out \<longleftrightarrow>
     (\<forall>k \<in> set order. \<not> isl (emitPackage R outs k []))
     \<and> out = res @ concat (map (packageFiles R outs) order)"
proof (induction order arbitrary: res)
  case Nil
  then show ?case by auto
next
  case (Cons k order)
  show ?case
  proof (cases "emitPackage R outs k res")
    case (Inl e)
    then have "isl (emitPackage R outs k [])"
      by (subst (asm) emitPackage_acc) (simp split: sum.splits)
    with Inl show ?thesis by simp
  next
    case (Inr res')
    then have "\<not> isl (emitPackage R outs k [])" and "res' = res @ packageFiles R outs k"
      by (simp_all add: emitPackage_Inr)
    with Inr show ?thesis by (simp add: Cons.IH)
  qed
qed

lemma mset_concat_map_cong:
  assumes "mset xs = mset ys"
  shows "mset (concat (map g xs)) = mset (concat (map g ys))"
proof -
  have "\<And>zs. mset (concat (map g zs)) = sum_mset (image_mset (\<lambda>z. mset (g z)) (mset zs))"
    by (induct_tac zs) simp_all
  then show ?thesis by (simp add: assms)
qed

lemma iterationOrder_mset:
  "iterationOrder o1 m \<Longrightarrow> iterationOrder o2 m \<Longrightarrow> mset o1 = mset o2"
  using set_eq_iff_mset_eq_distinct [of o1 o2] by (simp add: iterationOrder_def)

lemma iterationOrder_single:
  assumes "iterationOrder o1 m" and "iterationOrder o2 m" and "dom m \<subseteq> {p}"
  shows "o1 = o2"
proof -
  have one: "\<And>xs. distinct xs \<Longrightarrow> set xs \<subseteq> {p} \<Longrightarrow> xs = [] \<or> xs = [p]"
  proof -
    fix xs :: "string list"
    assume "distinct xs" and "set xs \<subseteq> {p}"
    then show "xs = [] \<or> xs = [p]"
      by (cases xs) (auto simp: subset_singleton_iff)
  qed
  from assms have d: "distinct o1" "distinct o2" and s: "set o1 \<subseteq> {p}" "set o2 \<subseteq> {p}"
    and e: "set o1 = set o2"
    by (simp_all add: iterationOrder_def)
  from one [OF d(1) s(1)] one [OF d(2) s(2)] e show ?thesis by auto
qed

lemma outputFilesOf_Inr:
  "buildFiles (ProtoFile req) (Map.empty, Map.empty, []) = Inr (r, outs, lg)
     \<Longrightarrow> outputFilesOf req = outs"
  by (simp add: outputFilesOf_def)

lemma generate_Inr:
  "generate R order req = Inr (files, lg) \<longleftrightarrow>
     (\<exists>r outs lg0.
        buildFiles (ProtoFile req) (Map.empty, Map.empty, []) = Inr (r, outs, lg0)
        \<and> emitPackages R outs order [\<lparr>Name = twirpFileName R, Content = twirpSource R\<rparr>] = Inr files
        \<and> lg = lg0 @ map (\<lambda>f. ''wrote: '' @ Name f) files)"
  by (auto simp: generate_def Let_def split: sum.splits)

lemma compileFiles_names:
  assumes "compileFiles R pff (ev, res) = Inr (ev', res')"
  shows "map Name res' = map Name res @ map Output pff"
  using assms
proof (induction pff arbitrary: ev res)
  case Nil
  then show ?case by simp
next
  case (Cons pf pff)
  from Cons.prems obtain content where
    "compileFiles R pff
       (ev\<lparr>Exports := Exports ev @ [TrimSuffix (Base (Output pf)) ''.ts'']\<rparr>,
        res @ [\<lparr>Name = Output pf, Content = content\<rparr>]) = Inr (ev', res')"
    by (auto simp: Let_def split: sum.splits)
  from Cons.IH [OF this] show ?case by simp
qed

lemma emitPackage_names:
  assumes "emitPackage R outs k [] = Inr fs" and "outs k = Some pff"
  shows "map Name fs = map Output pff @ [path_Join [k, ''index.ts'']]"
proof -
  from assms obtain ev res' content where
    c: "compileFiles R pff (\<lparr>Exports = []\<rparr>, []) = Inr (ev, res')"
    and fs: "fs = res' @ [\<lparr>Name = path_Join [k, ''index.ts''], Content = content\<rparr>]"
    by (auto simp: emitPackage_def split: sum.splits)
  from compileFiles_names [OF c] show ?thesis by (simp add: fs)
qed

lemma shopRequest_orders:
  "iterationOrder [''cart'', ''catalog''] (outputFilesOf shopRequest)
   \<and> iterationOrder [''catalog'', ''cart''] (outputFilesOf shopRequest)"
proof -
  have "\<not> isl (buildFiles (ProtoFile shopRequest) (Map.empty, Map.empty, []))" by code_simp
  then obtain r outs lg where
    b: "buildFiles (ProtoFile shopRequest) (Map.empty, Map.empty, []) = Inr (r, outs, lg)"
    by (cases "buildFiles (ProtoFile shopRequest) (Map.empty, Map.empty, [])") auto
  have "map tsImportPath (ProtoFile shopRequest) = [''catalog'', ''cart'']" by code_simp
  then have "tsImportPath ` set (ProtoFile shopRequest) = {''catalog'', ''cart''}"
    by (simp only: set_map [symmetric]) simp
  with buildFiles_groups(2) [OF b] have "dom (outputFilesOf shopRequest) = {''catalog'', ''cart''}"
    unfolding outputFilesOf_Inr [OF b] by simp
  then show ?thesis by (auto simp: iterationOrder_def)
qed

text \<open>
  Claim C4, as amended.  The response of a run starts with the runtime file; then, for
  each output directory in the order in which the run visits the keys of \<^verbatim>\<open>outputFiles\<close>,
  come the files of that directory in the order of the request, followed by the index of
  the directory.  The files of a directory do not depend on that order.  So two runs on
  the same request succeed or fail together and give the same (path, content) pairs and
  the same log lines up to the order of the directories; when all the files of the
  request are in one directory, the two responses and the two logs are equal.
\<close>

theorem generate_same_files_in_any_order:
  assumes "iterationOrder order1 (outputFilesOf req)"
      and "iterationOrder order2 (outputFilesOf req)"
      and "generate R order1 req = Inr (files1, lg1)"
  shows "\<exists>files2 lg2.
           generate R order2 req = Inr (files2, lg2)
           \<and> files1 = \<lparr>Name = twirpFileName R, Content = twirpSource R\<rparr>
                        # concat (map (packageFiles R (outputFilesOf req)) order1)
           \<and> files2 = \<lparr>Name = twirpFileName R, Content = twirpSource R\<rparr>
                        # concat (map (packageFiles R (outputFilesOf req)) order2)
           \<and> (\<forall>k \<in> set order1.
                 map Name (packageFiles R (outputFilesOf req) k)
                   = map tsFileName (filter (\<lambda>fd. tsImportPath fd = k) (ProtoFile req))
                     @ [path_Join [k, ''index.ts'']])
           \<and> mset files2 = mset files1
           \<and> mset lg2 = mset lg1
           \<and> ((\<forall>fd \<in> set (ProtoFile req). tsImportPath fd = p)
                \<longrightarrow> files2 = files1 \<and> lg2 = lg1)"
proof -
  from assms(3) obtain r outs lg0 where
    b: "buildFiles (ProtoFile req) (Map.empty, Map.empty, []) = Inr (r, outs, lg0)"
    and e1: "emitPackages R outs order1 [\<lparr>Name = twirpFileName R, Content = twirpSource R\<rparr>]
               = Inr files1"
    and l1: "lg1 = lg0 @ map (\<lambda>f. ''wrote: '' @ Name f) files1"
    unfolding generate_Inr by blast
  have outs: "outputFilesOf req = outs" by (rule outputFilesOf_Inr [OF b])
  from e1 have ok1: "\<forall>k \<in> set order1. \<not> isl (emitPackage R outs k [])"
    and f1: "files1 = [\<lparr>Name = twirpFileName R, Content = twirpSource R\<rparr>]
                       @ concat (map (packageFiles R outs) order1)"
    unfolding emitPackages_Inr by simp_all
  define files2 where
    "files2 = [\<lparr>Name = twirpFileName R, Content = twirpSource R\<rparr>]
                @ concat (map (packageFiles R outs) order2)"
  define lg2 where "lg2 = lg0 @ map (\<lambda>f. ''wrote: '' @ Name f) files2"
  have "set order2 = set order1"
    using assms(1,2) by (simp add: iterationOrder_def)
  with ok1 have "emitPackages R outs order2 [\<lparr>Name = twirpFileName R, Content = twirpSource R\<rparr>]
               = Inr files2"
    unfolding emitPackages_Inr files2_def by simp
  with b have g2: "generate R order2 req = Inr (files2, lg2)"
    unfolding generate_Inr lg2_def by blast
  have ms: "mset order2 = mset order1"
    using iterationOrder_mset [OF assms(2) assms(1)] .
  have mf: "mset files2 = mset files1"
    unfolding files2_def f1 using mset_concat_map_cong [OF ms, of "packageFiles R outs"] by simp
  have ml: "mset lg2 = mset lg1"
    unfolding lg2_def l1 by (simp add: mf)
  have single: "(\<forall>fd \<in> set (ProtoFile req). tsImportPath fd = p) \<longrightarrow> files2 = files1 \<and> lg2 = lg1"
  proof
    assume "\<forall>fd \<in> set (ProtoFile req). tsImportPath fd = p"
    then have "dom (outputFilesOf req) \<subseteq> {p}"
      unfolding outs using buildFiles_groups(2) [OF b] by auto
    from iterationOrder_single [OF assms(1) assms(2) this] 
    show "files2 = files1 \<and> lg2 = lg1"
      by (simp add: files2_def f1 lg2_def l1)
  qed
  have names: "\<forall>k \<in> set order1.
                 map Name (packageFiles R outs k)
                   = map tsFileName (filter (\<lambda>fd. tsImportPath fd = k) (ProtoFile req))
                     @ [path_Join [k, ''index.ts'']]"
  proof
    fix k assume k: "k \<in> set order1"
    with assms(1) have "k \<in> dom outs" by (simp add: iterationOrder_def outs)
    then obtain pff where pff: "outs k = Some pff" by auto
    from k ok1 obtain fs where fs: "emitPackage R outs k [] = Inr fs"
      by (cases "emitPackage R outs k []") auto
    have "map Output pff = map tsFileName (filter (\<lambda>fd. tsImportPath fd = k) (ProtoFile req))"
      using buildFiles_groups(1) [OF b, of k] by (simp add: pff)
    with emitPackage_names [OF fs pff] show "map Name (packageFiles R outs k)
                   = map tsFileName (filter (\<lambda>fd. tsImportPath fd = k) (ProtoFile req))
                     @ [path_Join [k, ''index.ts'']]"
      by (simp add: packageFiles_def fs)
  qed
  have f1': "files1 = \<lparr>Name = twirpFileName R, Content = twirpSource R\<rparr>
                        # concat (map (packageFiles R outs) order1)"
    using f1 by simp
  have f2: "files2 = \<lparr>Name = twirpFileName R, Content = twirpSource R\<rparr>
                        # concat (map (packageFiles R outs) order2)"
    by (simp add: files2_def)
  show ?thesis
    unfolding outs
  proof (intro exI conjI)
    show "generate R order2 req = Inr (files2, lg2)" by (rule g2)
    show "files1 = \<lparr>Name = twirpFileName R, Content = twirpSource R\<rparr>
                        # concat (map (packageFiles R outs) order1)" by (rule f1')
    show "files2 = \<lparr>Name = twirpFileName R, Content = twirpSource R\<rparr>
                        # concat (map (packageFiles R outs) order2)" by (rule f2)
    show "\<forall>k \<in> set order1.
                 map Name (packageFiles R outs k)
                   = map tsFileName (filter (\<lambda>fd. tsImportPath fd = k) (ProtoFile req))
                     @ [path_Join [k, ''index.ts'']]" by (rule names)
    show "mset files2 = mset files1" by (rule mf)
    show "mset lg2 = mset lg1" by (rule ml)
    show "(\<forall>fd \<in> set (ProtoFile req). tsImportPath fd = p) \<longrightarrow> files2 = files1 \<and> lg2 = lg1"
      by (rule single)
  qed
qed

theorem generate_same_files_in_any_order_witness:
  "iterationOrder [''cart'', ''catalog''] (outputFilesOf shopRequest)
   \<and> iterationOrder [''catalog'', ''cart''] (outputFilesOf shopRequest)
   \<and> (\<exists>files1 lg1 files2 lg2.
         generate sampleRenderer [''cart'', ''catalog''] shopRequest = Inr (files1, lg1)
         \<and> generate sampleRenderer [''catalog'', ''cart''] shopRequest = Inr (files2, lg2)
         \<and> map Name files1 = [''twirp.ts'', ''cart/cart.ts'', ''cart/index.ts'',
                               ''catalog/catalog.ts'', ''catalog/index.ts'']
         \<and> mset files2 = mset files1 \<and> mset lg2 = mset lg1)"
proof -
  have o1: "iterationOrder [''cart'', ''catalog''] (outputFilesOf shopRequest)"
    and o2: "iterationOrder [''catalog'', ''cart''] (outputFilesOf shopRequest)"
    using shopRequest_orders by simp_all
  have "\<not> isl (generate sampleRenderer [''cart'', ''catalog''] shopRequest)" by code_simp
  then obtain files1 lg1 where
    g1: "generate sampleRenderer [''cart'', ''catalog''] shopRequest = Inr (files1, lg1)"
    by (cases "generate sampleRenderer [''cart'', ''catalog''] shopRequest") auto
  have "(case generate sampleRenderer [''cart'', ''catalog''] shopRequest of
         Inl e \<Rightarrow> [] | Inr (files, lg) \<Rightarrow> map Name files)
       = [''twirp.ts'', ''cart/cart.ts'', ''cart/index.ts'',
          ''catalog/catalog.ts'', ''catalog/index.ts'']"
    by code_simp
  then have n1: "map Name files1 = [''twirp.ts'', ''cart/cart.ts'', ''cart/index.ts'',
                               ''catalog/catalog.ts'', ''catalog/index.ts'']"
    unfolding g1 by simp
  from generate_same_files_in_any_order [OF o1 o2 g1] obtain files2 lg2 where
    g2: "generate sampleRenderer [''catalog'', ''cart''] shopRequest = Inr (files2, lg2)"
    and mf: "mset files2 = mset files1" and ml: "mset lg2 = mset lg1"
    by blast
  show ?thesis
  proof (intro exI conjI)
    show "iterationOrder [''cart'', ''catalog''] (outputFilesOf shopRequest)" by (rule o1)
    show "iterationOrder [''catalog'', ''cart''] (outputFilesOf shopRequest)" by (rule o2)
    show "generate sampleRenderer [''cart'', ''catalog''] shopRequest = Inr (files1, lg1)"
      by (rule g1)
    show "generate sampleRenderer [''catalog'', ''cart''] shopRequest = Inr (files2, lg2)"
      by (rule g2)
    show "map Name files1 = [''twirp.ts'', ''cart/cart.ts'', ''cart/index.ts'',
                               ''catalog/catalog.ts'', ''catalog/index.ts'']" by (rule n1)
    show "mset files2 = mset files1" by (rule mf)
    show "mset lg2 = mset lg1" by (rule ml)
  qed
qed

text \<open>Against C4 as stated (any two runs give the same sequence): the request with
  \<^verbatim>\<open>catalog.proto\<close> and \<^verbatim>\<open>cart.proto\<close> has two output directories; the run that visits
  \<^verbatim>\<open>cart\<close> first and the run that visits \<^verbatim>\<open>catalog\<close> first list the files in different
  orders.\<close>

theorem generate_order_counterexample:
  "iterationOrder [''cart'', ''catalog''] (outputFilesOf shopRequest)
   \<and> iterationOrder [''catalog'', ''cart''] (outputFilesOf shopRequest)
   \<and> (case generate sampleRenderer [''cart'', ''catalog''] shopRequest of
         Inl e \<Rightarrow> [] | Inr (files, lg) \<Rightarrow> map Name files)
       = [''twirp.ts'', ''cart/cart.ts'', ''cart/index.ts'',
          ''catalog/catalog.ts'', ''catalog/index.ts'']
   \<and> (case generate sampleRenderer [''catalog'', ''cart''] shopRequest of
         Inl e \<Rightarrow> [] | Inr (files, lg) \<Rightarrow> map Name files)
       = [''twirp.ts'', ''catalog/catalog.ts'', ''catalog/index.ts'',
          ''cart/cart.ts'', ''cart/index.ts'']"
proof -
  have "(case generate sampleRenderer [''cart'', ''catalog''] shopRequest of
         Inl e \<Rightarrow> [] | Inr (files, lg) \<Rightarrow> map Name files)
       = [''twirp.ts'', ''cart/cart.ts'', ''cart/index.ts'',
          ''catalog/catalog.ts'', ''catalog/index.ts'']"
    by code_simp
  moreover have "(case generate sampleRenderer [''catalog'', ''cart''] shopRequest of
         Inl e \<Rightarrow> [] | Inr (files, lg) \<Rightarrow> map Name files)
       = [''twirp.ts'', ''catalog/catalog.ts'', ''catalog/index.ts'',
          ''cart/cart.ts'', ''cart/index.ts'']"
    by code_simp
  ultimately show ?thesis using shopRequest_orders by simp
qed

end
